theory Spec2Isabelle
  imports Main "HOL-Library.Sublist"
begin

section \<open>JavaScript strings\<close>

text \<open>
  A JavaScript string is a sequence of UTF-16 code units. A code unit is modelled as a
  natural number, so the Hebrew literals of the source and the Unicode white space that
  \<^verbatim>\<open>trim\<close> and the regular-expression class \<^verbatim>\<open>\s\<close> know are both exact.
  \<open>str ''abc''\<close> writes an ASCII literal.
\<close>

type_synonym jstring = "nat list"

abbreviation str :: "string \<Rightarrow> jstring" where
  "str s \<equiv> map of_char s"

abbreviation QUOTE :: nat where "QUOTE \<equiv> 34"
abbreviation BACKSLASH :: nat where "BACKSLASH \<equiv> 92"
abbreviation BACKTICK :: nat where "BACKTICK \<equiv> 96"
abbreviation LBRACKET :: nat where "LBRACKET \<equiv> 91"
abbreviation RBRACKET :: nat where "RBRACKET \<equiv> 93"
abbreviation LBRACE :: nat where "LBRACE \<equiv> 123"
abbreviation RBRACE :: nat where "RBRACE \<equiv> 125"

abbreviation FENCE :: jstring where "FENCE \<equiv> [BACKTICK, BACKTICK, BACKTICK]"

text \<open>
  White space of \<^verbatim>\<open>String.prototype.trim\<close> and of \<^verbatim>\<open>\s\<close> (ECMAScript WhiteSpace and
  LineTerminator): TAB, LF, VT, FF, CR, SP, NBSP, U+1680, U+2000..U+200A, LS, PS,
  U+202F, U+205F, U+3000 and the byte order mark.
\<close>

definition isWs :: "nat \<Rightarrow> bool" where
  "isWs c \<longleftrightarrow> c \<in> {9, 10, 11, 12, 13, 32, 160, 5760, 8232, 8233, 8239, 8287, 12288, 65279}
     \<or> (8192 \<le> c \<and> c \<le> 8202)"

definition ltrim :: "jstring \<Rightarrow> jstring" where
  "ltrim s = dropWhile isWs s"

definition rtrim :: "jstring \<Rightarrow> jstring" where
  "rtrim s = rev (dropWhile isWs (rev s))"

definition trim :: "jstring \<Rightarrow> jstring" where
  "trim s = rtrim (ltrim s)"

text \<open>\<^verbatim>\<open>s.indexOf(c)\<close> and \<^verbatim>\<open>s.indexOf(c, from)\<close> for a one-character pattern;
  \<open>None\<close> is the source's \<^verbatim>\<open>-1\<close>.\<close>

fun indexOf :: "jstring \<Rightarrow> nat \<Rightarrow> nat option" where
  "indexOf [] c = None"
| "indexOf (x # xs) c = (if x = c then Some 0 else map_option Suc (indexOf xs c))"

definition indexOf_from :: "jstring \<Rightarrow> nat \<Rightarrow> nat \<Rightarrow> nat option" where
  "indexOf_from s c from = map_option (\<lambda>i. from + i) (indexOf (drop from s) c)"

text \<open>\<^verbatim>\<open>s.lastIndexOf(c)\<close>.\<close>

definition lastIndexOf :: "jstring \<Rightarrow> nat \<Rightarrow> nat option" where
  "lastIndexOf s c =
     (case indexOf (rev s) c of None \<Rightarrow> None | Some i \<Rightarrow> Some (length s - 1 - i))"

text \<open>\<^verbatim>\<open>s.substring(a, b)\<close>: both indices are clamped to the length and swapped when
  \<open>a > b\<close>.\<close>

definition substring :: "jstring \<Rightarrow> nat \<Rightarrow> nat \<Rightarrow> jstring" where
  "substring s a b =
     (let a' = min a (length s); b' = min b (length s);
          lo = min a' b'; hi = max a' b'
      in take (hi - lo) (drop lo s))"

text \<open>The index of the first occurrence of a pattern, as a regular expression or
  \<^verbatim>\<open>indexOf\<close> finds a literal: leftmost first.\<close>

fun find_sub :: "jstring \<Rightarrow> jstring \<Rightarrow> nat option" where
  "find_sub pat [] = (if pat = [] then Some 0 else None)"
| "find_sub pat (x # xs) =
     (if prefix pat (x # xs) then Some 0 else map_option Suc (find_sub pat xs))"

text \<open>\<^verbatim>\<open>s.startsWith(p)\<close> is \<open>prefix p s\<close>; \<open>ends_with\<close> is its mirror image.\<close>

definition ends_with :: "jstring \<Rightarrow> jstring \<Rightarrow> bool" where
  "ends_with s p \<longleftrightarrow> suffix p s"

text \<open>The letters of the language tag, matched without regard to case by the
  \<^verbatim>\<open>i\<close> flag: only the ASCII letters fold onto \<^verbatim>\<open>j\<close>, \<^verbatim>\<open>s\<close>, \<^verbatim>\<open>o\<close>, \<^verbatim>\<open>n\<close>.\<close>

definition json_tag_ci :: "jstring \<Rightarrow> bool" where
  "json_tag_ci s \<longleftrightarrow>
     (case s of
        j # s' # ob # n # _ \<Rightarrow>
          (j = 106 \<or> j = 74) \<and> (s' = 115 \<or> s' = 83) \<and> (ob = 111 \<or> ob = 79) \<and> (n = 110 \<or> n = 78)
      | _ \<Rightarrow> False)"

section \<open>JSON values and \<^verbatim>\<open>JSON.parse\<close>\<close>

text \<open>
  The values \<^verbatim>\<open>JSON.parse\<close> can return. An object is the list of its own properties in
  insertion order, each key once. A number keeps the literal it was read from: the
  program never computes with one.
\<close>

datatype json =
    JNull
  | JBool bool
  | JNum jstring
  | JStr jstring
  | JArr "json list"
  | JObj "(jstring \<times> json) list"

text \<open>Defining a property: an existing key keeps its place and takes the new value
  (a repeated key in a JSON text: the last value wins), a new key goes to the end.\<close>

fun obj_set :: "'k \<Rightarrow> 'v \<Rightarrow> ('k \<times> 'v) list \<Rightarrow> ('k \<times> 'v) list" where
  "obj_set k v [] = [(k, v)]"
| "obj_set k v (p # ps) = (if fst p = k then (k, v) # ps else p # obj_set k v ps)"

subsection \<open>Tokens\<close>

datatype token =
    TLBrace | TRBrace | TLBrack | TRBrack | TColon | TComma
  | TStr jstring | TNum jstring | TTrue | TFalse | TNull

text \<open>JSON white space is TAB, LF, CR and SP only.\<close>

definition json_ws :: "nat \<Rightarrow> bool" where
  "json_ws c \<longleftrightarrow> c = 9 \<or> c = 10 \<or> c = 13 \<or> c = 32"

definition is_digit :: "nat \<Rightarrow> bool" where
  "is_digit c \<longleftrightarrow> 48 \<le> c \<and> c \<le> 57"

definition hex_val :: "nat \<Rightarrow> nat option" where
  "hex_val c =
     (if 48 \<le> c \<and> c \<le> 57 then Some (c - 48)
      else if 97 \<le> c \<and> c \<le> 102 then Some (c - 87)
      else if 65 \<le> c \<and> c \<le> 70 then Some (c - 55)
      else None)"

text \<open>The character a one-letter escape stands for.\<close>

definition escape_char :: "nat \<Rightarrow> nat option" where
  "escape_char e =
     (if e = QUOTE then Some QUOTE
      else if e = BACKSLASH then Some BACKSLASH
      else if e = 47 then Some 47
      else if e = 98 then Some 8
      else if e = 102 then Some 12
      else if e = 110 then Some 10
      else if e = 114 then Some 13
      else if e = 116 then Some 9
      else None)"

text \<open>An escape sequence, after its backslash: the code unit it stands for and the
  text after it. \<^verbatim>\<open>\u\<close> takes exactly four hexadecimal digits.\<close>

definition lex_escape :: "jstring \<Rightarrow> (nat \<times> jstring) option" where
  "lex_escape cs =
     (case cs of
        [] \<Rightarrow> None
      | e # cs' \<Rightarrow>
          if e = 117 then
            (if length cs' < 4 then None
             else
               (case (hex_val (cs' ! 0), hex_val (cs' ! 1), hex_val (cs' ! 2), hex_val (cs' ! 3)) of
                  (Some a, Some b, Some c, Some d) \<Rightarrow>
                    Some (((a * 16 + b) * 16 + c) * 16 + d, drop 4 cs')
                | _ \<Rightarrow> None))
          else map_option (\<lambda>x. (x, cs')) (escape_char e))"

lemma lex_escape_length: "lex_escape cs = Some (x, r) \<Longrightarrow> length r < length cs"
  unfolding lex_escape_def
  by (cases cs) (auto split: if_splits option.splits)

text \<open>The body of a string literal, after its opening quote: the decoded string and
  the text after the closing quote. A control character, a bad escape or the end of
  the text before the closing quote is an error.\<close>

function lex_string :: "jstring \<Rightarrow> jstring \<Rightarrow> (jstring \<times> jstring) option" where
  "lex_string acc [] = None"
| "lex_string acc (c # cs) =
     (if c = QUOTE then Some (rev acc, cs)
      else if c = BACKSLASH then
        (case lex_escape cs of
           None \<Rightarrow> None
         | Some (x, r) \<Rightarrow> lex_string (x # acc) r)
      else if c < 32 then None
      else lex_string (c # acc) cs)"
  by pat_completeness auto
termination
  by (relation "measure (\<lambda>(acc, cs). length cs)")
     (auto dest: lex_escape_length)

text \<open>A number literal: an optional minus, an integer part without a leading zero,
  an optional fraction and an optional exponent. The result is the literal and the
  text after it.\<close>

definition lex_digits :: "jstring \<Rightarrow> (jstring \<times> jstring) option" where
  "lex_digits cs =
     (let ds = takeWhile is_digit cs
      in if ds = [] then None else Some (ds, dropWhile is_digit cs))"

definition lex_int :: "jstring \<Rightarrow> (jstring \<times> jstring) option" where
  "lex_int cs =
     (case cs of
        [] \<Rightarrow> None
      | c # cs' \<Rightarrow>
          if c = 48 then Some ([c], cs')
          else if is_digit c then Some (c # takeWhile is_digit cs', dropWhile is_digit cs')
          else None)"

definition lex_frac :: "jstring \<Rightarrow> (jstring \<times> jstring) option" where
  "lex_frac cs =
     (case cs of
        c # cs' \<Rightarrow>
          if c = 46 then
            (case lex_digits cs' of None \<Rightarrow> None | Some (ds, r) \<Rightarrow> Some (c # ds, r))
          else Some ([], cs)
      | [] \<Rightarrow> Some ([], cs))"

definition lex_exp :: "jstring \<Rightarrow> (jstring \<times> jstring) option" where
  "lex_exp cs =
     (case cs of
        c # cs' \<Rightarrow>
          if c = 101 \<or> c = 69 then
            (case cs' of
               s # cs'' \<Rightarrow>
                 if s = 43 \<or> s = 45 then
                   (case lex_digits cs'' of None \<Rightarrow> None | Some (ds, r) \<Rightarrow> Some (c # s # ds, r))
                 else
                   (case lex_digits cs' of None \<Rightarrow> None | Some (ds, r) \<Rightarrow> Some (c # ds, r))
             | [] \<Rightarrow> None)
          else Some ([], cs)
      | [] \<Rightarrow> Some ([], cs))"

definition lex_number :: "jstring \<Rightarrow> (jstring \<times> jstring) option" where
  "lex_number cs =
     (let (sign, r0) = (case cs of c # cs' \<Rightarrow> if c = 45 then ([c], cs') else ([], cs) | [] \<Rightarrow> ([], cs))
      in case lex_int r0 of
           None \<Rightarrow> None
         | Some (i, r1) \<Rightarrow>
             (case lex_frac r1 of
                None \<Rightarrow> None
              | Some (f, r2) \<Rightarrow>
                  (case lex_exp r2 of
                     None \<Rightarrow> None
                   | Some (e, r3) \<Rightarrow> Some (sign @ i @ f @ e, r3))))"

lemma lex_string_length: "lex_string acc cs = Some (s, r) \<Longrightarrow> length r < length cs"
proof (induction acc cs rule: lex_string.induct)
  case (1 acc)
  then show ?case by simp
next
  case (2 acc c cs)
  consider (quote) "c = QUOTE" | (esc) "c \<noteq> QUOTE" "c = BACKSLASH"
    | (plain) "c \<noteq> QUOTE" "c \<noteq> BACKSLASH"
    by blast
  then show ?case
  proof cases
    case quote
    with "2.prems" show ?thesis by simp
  next
    case esc
    with "2.prems" obtain x r' where e: "lex_escape cs = Some (x, r')"
      and l: "lex_string (x # acc) r' = Some (s, r)"
      by (auto split: option.splits)
    from "2.IH"(1) [OF esc e refl l] have "length r < length r'" .
    moreover from lex_escape_length [OF e] have "length r' < length cs" .
    ultimately show ?thesis by simp
  next
    case plain
    with "2.prems" have nc: "\<not> c < 32" and l: "lex_string (c # acc) cs = Some (s, r)"
      by (auto split: if_splits)
    from "2.IH"(2) [OF plain nc l] show ?thesis by simp
  qed
qed

lemma lex_digits_length: "lex_digits cs = Some (ds, r) \<Longrightarrow> length r < length cs"
proof -
  assume a: "lex_digits cs = Some (ds, r)"
  then have "takeWhile is_digit cs \<noteq> []" and "r = dropWhile is_digit cs"
    by (auto simp: lex_digits_def Let_def split: if_splits)
  moreover have "length (takeWhile is_digit cs) + length (dropWhile is_digit cs) = length cs"
    by (metis length_append takeWhile_dropWhile_id)
  ultimately show ?thesis by (cases "takeWhile is_digit cs") auto
qed

lemma lex_int_length: "lex_int cs = Some (i, r) \<Longrightarrow> length r < length cs"
  by (auto simp: lex_int_def less_Suc_eq_le length_dropWhile_le split: list.splits if_splits)

lemma lex_frac_length: "lex_frac cs = Some (f, r) \<Longrightarrow> length r \<le> length cs"
  by (auto simp: lex_frac_def split: list.splits if_splits option.splits
      dest!: lex_digits_length)

lemma lex_exp_length: "lex_exp cs = Some (e, r) \<Longrightarrow> length r \<le> length cs"
  by (auto simp: lex_exp_def split: list.splits if_splits option.splits
      dest!: lex_digits_length)

lemma lex_number_length: "lex_number cs = Some (n, r) \<Longrightarrow> length r < length cs"
  by (fastforce simp: lex_number_def Let_def
      split: list.splits if_splits option.splits prod.splits
      dest!: lex_int_length lex_frac_length lex_exp_length)

text \<open>The token sequence of a text; \<open>None\<close> where no token starts.\<close>

function tokenize :: "jstring \<Rightarrow> token list option" where
  "tokenize [] = Some []"
| "tokenize (c # cs) =
     (if json_ws c then tokenize cs
      else if c = LBRACE then map_option (Cons TLBrace) (tokenize cs)
      else if c = RBRACE then map_option (Cons TRBrace) (tokenize cs)
      else if c = LBRACKET then map_option (Cons TLBrack) (tokenize cs)
      else if c = RBRACKET then map_option (Cons TRBrack) (tokenize cs)
      else if c = 58 then map_option (Cons TColon) (tokenize cs)
      else if c = 44 then map_option (Cons TComma) (tokenize cs)
      else if c = QUOTE then
        (case lex_string [] cs of
           None \<Rightarrow> None
         | Some (s, r) \<Rightarrow> map_option (Cons (TStr s)) (tokenize r))
      else if c = 45 \<or> is_digit c then
        (case lex_number (c # cs) of
           None \<Rightarrow> None
         | Some (n, r) \<Rightarrow> map_option (Cons (TNum n)) (tokenize r))
      else if prefix (str ''true'') (c # cs) then map_option (Cons TTrue) (tokenize (drop 3 cs))
      else if prefix (str ''false'') (c # cs) then map_option (Cons TFalse) (tokenize (drop 4 cs))
      else if prefix (str ''null'') (c # cs) then map_option (Cons TNull) (tokenize (drop 3 cs))
      else None)"
  by pat_completeness auto
termination
  by (relation "measure length")
     (auto dest: lex_string_length lex_number_length)

subsection \<open>Grammar\<close>

text \<open>
  The grammar of ECMA-404 over the token sequence, with the containers under
  construction on a stack: \<open>InArr\<close> holds the elements read so far (latest first),
  \<open>InObj\<close> the members read so far and the key whose value is awaited.
  \<open>expect_value\<close> reads the start of a value, \<open>after_value\<close> what may follow a
  finished one. Every step consumes a token.
\<close>

datatype frame =
    InArr "json list"
  | InObj "(jstring \<times> json) list" jstring

fun expect_value :: "frame list \<Rightarrow> token list \<Rightarrow> json option"
  and after_value :: "json \<Rightarrow> frame list \<Rightarrow> token list \<Rightarrow> json option" where
  "expect_value stk [] = None"
| "expect_value stk (t # ts) =
     (case t of
        TStr s \<Rightarrow> after_value (JStr s) stk ts
      | TNum n \<Rightarrow> after_value (JNum n) stk ts
      | TTrue \<Rightarrow> after_value (JBool True) stk ts
      | TFalse \<Rightarrow> after_value (JBool False) stk ts
      | TNull \<Rightarrow> after_value JNull stk ts
      | TLBrack \<Rightarrow>
          (case ts of
             TRBrack # ts' \<Rightarrow> after_value (JArr []) stk ts'
           | _ \<Rightarrow> expect_value (InArr [] # stk) ts)
      | TLBrace \<Rightarrow>
          (case ts of
             TRBrace # ts' \<Rightarrow> after_value (JObj []) stk ts'
           | TStr k # TColon # ts' \<Rightarrow> expect_value (InObj [] k # stk) ts'
           | _ \<Rightarrow> None)
      | _ \<Rightarrow> None)"
| "after_value v [] ts = (if ts = [] then Some v else None)"
| "after_value v (f # stk) [] = None"
| "after_value v (f # stk) (t # ts) =
     (case f of
        InArr acc \<Rightarrow>
          (case t of
             TComma \<Rightarrow> expect_value (InArr (v # acc) # stk) ts
           | TRBrack \<Rightarrow> after_value (JArr (rev (v # acc))) stk ts
           | _ \<Rightarrow> None)
      | InObj ms k \<Rightarrow>
          (case t of
             TComma \<Rightarrow>
               (case ts of
                  TStr k' # TColon # ts' \<Rightarrow> expect_value (InObj (obj_set k v ms) k' # stk) ts'
                | _ \<Rightarrow> None)
           | TRBrace \<Rightarrow> after_value (JObj (obj_set k v ms)) stk ts
           | _ \<Rightarrow> None))"

text \<open>\<^verbatim>\<open>JSON.parse(text)\<close>: \<open>None\<close> is the \<^verbatim>\<open>SyntaxError\<close> it throws.\<close>

definition JSON_parse :: "jstring \<Rightarrow> json option" where
  "JSON_parse text =
     (case tokenize text of None \<Rightarrow> None | Some ts \<Rightarrow> expect_value [] ts)"


text \<open>
  The value of a number literal is \<open>m * 10 ^ e\<close> up to its sign: \<open>m\<close> the digits of the
  integer part and of the fraction read as one decimal number, \<open>e\<close> the written
  exponent less the number of digits of the fraction.
\<close>

definition digits_value :: "jstring \<Rightarrow> nat" where
  "digits_value ds = foldl (\<lambda>a c. 10 * a + (c - 48)) 0 ds"

definition num_mantissa :: "jstring \<Rightarrow> nat" where
  "num_mantissa n = digits_value (filter is_digit (takeWhile (\<lambda>c. c \<noteq> 101 \<and> c \<noteq> 69) n))"

definition num_exponent :: "jstring \<Rightarrow> int" where
  "num_exponent n =
     (let body = takeWhile (\<lambda>c. c \<noteq> 101 \<and> c \<noteq> 69) n;
          ex = drop 1 (dropWhile (\<lambda>c. c \<noteq> 101 \<and> c \<noteq> 69) n);
          written = (case ex of
                       [] \<Rightarrow> 0
                     | s # ds \<Rightarrow>
                         if s = 45 then - int (digits_value ds)
                         else int (digits_value (filter is_digit ex)))
      in written - int (length (filter is_digit (dropWhile (\<lambda>c. c \<noteq> 46) body))))"

text \<open>
  \<^verbatim>\<open>JSON.parse\<close> gives the double nearest to the value of the literal, ties to the
  even significand. The least positive double is \<open>2 ^ -1074\<close>, so the number read is
  \<^verbatim>\<open>0\<close> or \<^verbatim>\<open>-0\<close> exactly when the value is at most \<open>2 ^ -1075\<close>: a literal of zero
  digits, or one that underflows, such as \<^verbatim>\<open>1e-400\<close>. No literal reads as \<^verbatim>\<open>NaN\<close>.
\<close>

definition num_is_zero :: "jstring \<Rightarrow> bool" where
  "num_is_zero n \<longleftrightarrow>
     (if num_mantissa n = 0 then True
      else if 0 \<le> num_exponent n then False
      else num_mantissa n * 2 ^ 1075 \<le> 10 ^ nat (- num_exponent n))"

text \<open>Truthiness of a parsed value: \<^verbatim>\<open>null\<close>, \<^verbatim>\<open>false\<close>, a number that is zero and the
  empty string are falsy.\<close>

fun truthy :: "json \<Rightarrow> bool" where
  "truthy JNull = False"
| "truthy (JBool b) = b"
| "truthy (JNum n) = (\<not> num_is_zero n)"
| "truthy (JStr s) = (s \<noteq> [])"
| "truthy (JArr xs) = True"
| "truthy (JObj ms) = True"

text \<open>\<^verbatim>\<open>Array.isArray(v)\<close>, and \<^verbatim>\<open>v && typeof v === 'object'\<close>.\<close>

fun isArray :: "json \<Rightarrow> bool" where
  "isArray (JArr xs) = True"
| "isArray _ = False"

fun is_object_like :: "json \<Rightarrow> bool" where
  "is_object_like (JArr xs) = True"
| "is_object_like (JObj ms) = True"
| "is_object_like _ = False"

section \<open>\<^verbatim>\<open>extractJson\<close>, the revision with sequential object extraction\<close>

text \<open>
  \<^verbatim>\<open>cleanedText.match(/```(?:json)?\s*([\s\S]*?)\s*```/)\<close>: the first capture group of
  the match, \<open>None\<close> when the expression does not match. The match starts at the first
  fence. The optional tag and the white space after it are taken greedily; neither
  holds a backtick, so a closing fence exists behind them exactly when one exists at
  all, and no backtracking happens. The lazy group then ends as early as the rest can
  be white space followed by a fence: at the first fence behind it, less the white
  space in front of that fence.
\<close>

definition codeBlockMatch :: "jstring \<Rightarrow> jstring option" where
  "codeBlockMatch s =
     (case find_sub FENCE s of
        None \<Rightarrow> None
      | Some i \<Rightarrow>
          (let a = drop (i + 3) s;
               a1 = (if prefix (str ''json'') a then drop 4 a else a);
               a2 = dropWhile isWs a1
           in case find_sub FENCE a2 of
                None \<Rightarrow> None
              | Some j \<Rightarrow> Some (rtrim (take j a2))))"

text \<open>\<^verbatim>\<open>s.replace(/^json\s*/i, '')\<close>.\<close>

definition strip_json_word :: "jstring \<Rightarrow> jstring" where
  "strip_json_word s = (if json_tag_ci s then ltrim (drop 4 s) else s)"

text \<open>The pre-cleaning step: the inside of a code block when the match has a
  non-empty group, otherwise the trimmed text without a leading \<^verbatim>\<open>json\<close>.\<close>

definition cleanedText_v1 :: "jstring \<Rightarrow> jstring" where
  "cleanedText_v1 text =
     (let cleanedText = trim text
      in case codeBlockMatch cleanedText of
           Some group1 \<Rightarrow>
             if group1 \<noteq> [] then trim group1 else strip_json_word cleanedText
         | None \<Rightarrow> strip_json_word cleanedText)"

text \<open>Step 2, shared by both revisions: parse from the first \<^verbatim>\<open>[\<close> to the last
  \<^verbatim>\<open>]\<close>; \<open>None\<close> when there is no such pair or the parse throws. Step 3 of the later
  revision does the same with braces.\<close>

definition parse_between :: "nat \<Rightarrow> nat \<Rightarrow> jstring \<Rightarrow> json option" where
  "parse_between opening closing s =
     (case (indexOf s opening, lastIndexOf s closing) of
        (Some firstOpen, Some lastClose) \<Rightarrow>
          if lastClose > firstOpen then JSON_parse (substring s firstOpen (lastClose + 1))
          else None
      | _ \<Rightarrow> None)"

text \<open>The inner loop of step 3: from \<open>endIndex\<close> on, until the text ends or the
  balance is zero. The result is the final \<open>endIndex\<close> and balance.\<close>

function scan_object :: "jstring \<Rightarrow> nat \<Rightarrow> int \<Rightarrow> bool \<Rightarrow> bool \<Rightarrow> nat \<times> int" where
  "scan_object s endIndex balance inString escape =
     (if endIndex < length s \<and> balance > 0 then
        (let char = s ! endIndex
         in if escape then scan_object s (endIndex + 1) balance inString False
            else if char = BACKSLASH then scan_object s (endIndex + 1) balance inString True
            else if char = QUOTE then scan_object s (endIndex + 1) balance (\<not> inString) False
            else if \<not> inString then
              (if char = LBRACE then scan_object s (endIndex + 1) (balance + 1) inString False
               else if char = RBRACE then scan_object s (endIndex + 1) (balance - 1) inString False
               else scan_object s (endIndex + 1) balance inString False)
            else scan_object s (endIndex + 1) balance inString False)
      else (endIndex, balance))"
  by pat_completeness auto
termination
  by (relation "measure (\<lambda>(s, endIndex, balance, inString, escape). length s - endIndex)") auto

declare scan_object.simps [simp del]

text \<open>The outer loop of step 3, with its safety limiter. \<open>startIndex = None\<close> is the
  source's \<^verbatim>\<open>-1\<close>.\<close>

function sequential_loop :: "jstring \<Rightarrow> nat option \<Rightarrow> nat \<Rightarrow> json list \<Rightarrow> json list" where
  "sequential_loop s startIndex loopCount objects =
     (case startIndex of
        None \<Rightarrow> objects
      | Some start \<Rightarrow>
          if loopCount < 50 then
            (case scan_object s (start + 1) 1 False False of
               (endIndex, balance) \<Rightarrow>
                 if balance = 0 then
                   sequential_loop s (indexOf_from s LBRACE endIndex) (loopCount + 1)
                     (case JSON_parse (substring s start endIndex) of
                        Some obj \<Rightarrow> if is_object_like obj then objects @ [obj] else objects
                      | None \<Rightarrow> objects)
                 else objects)
          else objects)"
  by pat_completeness auto
termination
  by (relation "measure (\<lambda>(s, startIndex, loopCount, objects). 50 - loopCount)") auto

declare sequential_loop.simps [simp del]

definition sequential_objects :: "jstring \<Rightarrow> json list" where
  "sequential_objects s = sequential_loop s (indexOf s LBRACE) 0 []"

text \<open>\<^verbatim>\<open>extractJson\<close>. The value \<^verbatim>\<open>null\<close> it returns is \<open>JNull\<close>, as is a parsed
  \<^verbatim>\<open>null\<close>. Every \<^verbatim>\<open>JSON.parse\<close> sits in a \<^verbatim>\<open>try\<close> whose handler is empty, so a
  failed parse falls through to the next step.\<close>

definition extractJson_v1 :: "jstring \<Rightarrow> json" where
  "extractJson_v1 text =
     (if text = [] then JNull
      else
        (let cleanedText = cleanedText_v1 text
         in case JSON_parse cleanedText of
              Some v \<Rightarrow> v
            | None \<Rightarrow>
                (case parse_between LBRACKET RBRACKET cleanedText of
                   Some v \<Rightarrow> v
                 | None \<Rightarrow>
                     (let objects = sequential_objects cleanedText
                      in if length objects > 0 then JArr objects else JNull))))"

section \<open>\<^verbatim>\<open>extractJson\<close>, the revision with object extraction\<close>

text \<open>\<^verbatim>\<open>s.replace(/^```(?:json)?\s*/i, "")\<close> and \<^verbatim>\<open>s.replace(/\s*```$/, "")\<close>. The second
  expression matches at the leftmost place from which only white space and a final
  fence follow.\<close>

definition strip_fence_open :: "jstring \<Rightarrow> jstring" where
  "strip_fence_open s =
     (if prefix FENCE s then
        (let a = drop 3 s;
             a1 = (if json_tag_ci a then drop 4 a else a)
         in ltrim a1)
      else s)"

definition strip_fence_close :: "jstring \<Rightarrow> jstring" where
  "strip_fence_close s =
     (if ends_with s FENCE then rtrim (take (length s - 3) s) else s)"

definition cleaned_v2 :: "jstring \<Rightarrow> jstring" where
  "cleaned_v2 text = strip_fence_close (strip_fence_open (trim text))"

definition extractJson_v2 :: "jstring \<Rightarrow> json" where
  "extractJson_v2 text =
     (if text = [] then JNull
      else
        (let cleaned = cleaned_v2 text
         in case JSON_parse cleaned of
              Some v \<Rightarrow> v
            | None \<Rightarrow>
                (case parse_between LBRACKET RBRACKET cleaned of
                   Some v \<Rightarrow> v
                 | None \<Rightarrow>
                     (case parse_between LBRACE RBRACE cleaned of
                        Some v \<Rightarrow> v
                      | None \<Rightarrow> JNull))))"


section \<open>The fetch functions\<close>

subsection \<open>Objects, thrown values and the service's answer\<close>

text \<open>
  An article handed to the user interface is a plain object: its properties in
  insertion order, where the value \<open>None\<close> is \<^verbatim>\<open>undefined\<close> (a property can be present
  and hold \<^verbatim>\<open>undefined\<close>). Reading a property that is absent gives \<^verbatim>\<open>undefined\<close> too.
\<close>

type_synonym jsobj = "(jstring \<times> json option) list"

definition obj_get :: "jsobj \<Rightarrow> jstring \<Rightarrow> json option" where
  "obj_get ob k = (case map_of ob k of None \<Rightarrow> None | Some v \<Rightarrow> v)"

text \<open>What a \<^verbatim>\<open>try\<close> block can catch here: a \<^verbatim>\<open>TypeError\<close> of the runtime (a property
  read on \<^verbatim>\<open>null\<close>, a call of something that is no function, a URL that does not
  parse) or the rejection of the request to the service.\<close>

datatype js_error = TypeError | Rejected

text \<open>The answer of \<^verbatim>\<open>generateContent\<close>: \<^verbatim>\<open>response.text\<close> (which may be
  \<^verbatim>\<open>undefined\<close>) and, for each grounding chunk, its \<^verbatim>\<open>web?.uri\<close>.\<close>

record response =
  resp_text :: "jstring option"
  resp_chunks :: "jstring option list"

text \<open>\<^verbatim>\<open>response.text || ""\<close>.\<close>

definition text_of :: "response \<Rightarrow> jstring" where
  "text_of r = (case resp_text r of None \<Rightarrow> [] | Some t \<Rightarrow> t)"

text \<open>\<^verbatim>\<open>groundingChunks.map(chunk => chunk.web?.uri).filter(uri => !!uri)\<close>.\<close>

definition validLinks :: "response \<Rightarrow> jstring list" where
  "validLinks r =
     List.map_filter (\<lambda>uri. case uri of None \<Rightarrow> None | Some u \<Rightarrow> if u \<noteq> [] then Some u else None)
       (resp_chunks r)"

text \<open>Reading one of the properties the program reads (\<^verbatim>\<open>news\<close>, \<^verbatim>\<open>articles\<close>,
  \<^verbatim>\<open>title\<close>, \<^verbatim>\<open>summary\<close>, \<^verbatim>\<open>category\<close>, \<^verbatim>\<open>publishedAt\<close>) from a parsed value other
  than \<^verbatim>\<open>null\<close>: an object is looked up; no array, string, number or boolean has a
  property of these names.\<close>

fun get_prop :: "json \<Rightarrow> jstring \<Rightarrow> json option" where
  "get_prop (JObj ms) k = map_of ms k"
| "get_prop _ k = None"

definition truthy_opt :: "json option \<Rightarrow> bool" where
  "truthy_opt v = (case v of None \<Rightarrow> False | Some x \<Rightarrow> truthy x)"

text \<open>The decimal name of an index.\<close>

function decimal :: "nat \<Rightarrow> jstring" where
  "decimal n = (if n < 10 then [48 + n] else decimal (n div 10) @ [48 + n mod 10])"
  by pat_completeness auto
termination
  by (relation "measure id") auto

declare decimal.simps [simp del]

text \<open>The properties \<^verbatim>\<open>{...v}\<close> copies: those of an object, the elements of an array
  and the code units of a string under their indices, nothing for a number, a boolean
  or \<^verbatim>\<open>null\<close>.\<close>

fun spread :: "json \<Rightarrow> jsobj" where
  "spread (JObj ms) = map (\<lambda>(k, v). (k, Some v)) ms"
| "spread (JArr xs) = map (\<lambda>(i, v). (decimal i, Some v)) (enumerate 0 xs)"
| "spread (JStr s) = map (\<lambda>(i, c). (decimal i, Some (JStr [c]))) (enumerate 0 s)"
| "spread _ = []"

text \<open>\<^verbatim>\<open>s.replace(pattern, replacement)\<close> with a string pattern: the first occurrence.\<close>

definition replace_first :: "jstring \<Rightarrow> jstring \<Rightarrow> jstring \<Rightarrow> jstring" where
  "replace_first pat rep s =
     (case find_sub pat s of
        None \<Rightarrow> s
      | Some i \<Rightarrow> take i s @ rep @ drop (i + length pat) s)"

text \<open>Results in evaluation order: the first thrown value ends the evaluation.\<close>

fun collect :: "(js_error + 'a) list \<Rightarrow> js_error + 'a list" where
  "collect [] = Inr []"
| "collect (Inl e # rs) = Inl e"
| "collect (Inr x # rs) = (case collect rs of Inl e \<Rightarrow> Inl e | Inr xs \<Rightarrow> Inr (x # xs))"

text \<open>\<^verbatim>\<open>v.map((element, index) => ...)\<close> on a parsed value: only an array has a
  \<^verbatim>\<open>map\<close> that can be called; on anything else the call throws a \<^verbatim>\<open>TypeError\<close>.\<close>

fun js_map :: "(json \<Rightarrow> nat \<Rightarrow> js_error + 'a) \<Rightarrow> json \<Rightarrow> js_error + 'a list" where
  "js_map f (JArr xs) = collect (map (\<lambda>(i, x). f x i) (enumerate 0 xs))"
| "js_map f _ = Inl TypeError"

text \<open>An object literal with the four required keys of \<^verbatim>\<open>NewsArticle\<close>.\<close>

definition article4 :: "jstring \<Rightarrow> jstring \<Rightarrow> jstring \<Rightarrow> jstring \<Rightarrow> jsobj" where
  "article4 t s c p =
     [(str ''title'', Some (JStr t)), (str ''summary'', Some (JStr s)),
      (str ''category'', Some (JStr c)), (str ''publishedAt'', Some (JStr p))]"

text \<open>The Hebrew literals of the source, as UTF-16 code units.\<close>

definition NOW_LABEL :: jstring where
  "NOW_LABEL = [1506, 1499, 1513, 1497, 1493]"

definition PARSE_FAILED_v1 :: jsobj where
  "PARSE_FAILED_v1 = article4 [1513, 1490, 1497, 1488, 1492, 32, 1489, 1496, 1506, 1497, 1504, 1514,
      32, 1492, 1504, 1514, 1493, 1504, 1497, 1501] [1492, 1502, 1493, 1491, 1500, 32, 1492, 1495, 1494, 1497, 1512, 32,
      1514, 1513, 1493, 1489, 1492, 32, 1513, 1488, 1497, 1504, 1492,
      32, 1514, 1511, 1497, 1504, 1492, 46, 32, 1488, 1504, 1488, 32,
      1504, 1505, 1492, 32, 1513, 1493, 1489, 32, 1488, 1493, 32, 1504,
      1505, 1495, 32, 1488, 1514, 32, 1492, 1495, 1497, 1508, 1493,
      1513, 32, 1502, 1495, 1491, 1513, 46] (str ''General'') NOW_LABEL"

definition COMM_FAILED_v1 :: jsobj where
  "COMM_FAILED_v1 = article4 [1513, 1490, 1497, 1488, 1492, 32, 1489, 1514, 1511, 1513, 1493, 1512,
      1514] [1500, 1488, 32, 1504, 1497, 1514, 1503, 32, 1492, 1497, 1492, 32,
      1500, 1497, 1510, 1493, 1512, 32, 1511, 1513, 1512, 32, 1506,
      1501, 32, 1492, 1513, 1512, 1514, 46, 32, 1488, 1504, 1488, 32,
      1489, 1491, 1493, 1511, 32, 1488, 1514, 32, 1492, 1495, 1497,
      1489, 1493, 1512, 32, 1513, 1500, 1498, 46] (str ''General'') NOW_LABEL"

definition DEEP_UNAVAILABLE_v1 :: jsobj where
  "DEEP_UNAVAILABLE_v1 = article4 [1504, 1497, 1514, 1493, 1495, 32, 1500, 1488, 32, 1494, 1502, 1497,
      1503] [1500, 1488, 32, 1504, 1497, 1514, 1503, 32, 1492, 1497, 1492, 32,
      1500, 1506, 1489, 1491, 32, 1488, 1514, 32, 1514, 1493, 1510,
      1488, 1493, 1514, 32, 1492, 1502, 1495, 1511, 1512, 46, 32, 1488,
      1504, 1488, 32, 1504, 1505, 1492, 32, 1513, 1493, 1489, 46] (str ''General'') NOW_LABEL"

definition DEEP_FAILED_v1 :: jsobj where
  "DEEP_FAILED_v1 = article4 [1513, 1490, 1497, 1488, 1492, 32, 1489, 1504, 1497, 1514, 1493, 1495,
      32, 1502, 1506, 1502, 1497, 1511] [1492, 1502, 1493, 1491, 1500, 32, 1504, 1514, 1511, 1500, 32, 1489,
      1489, 1506, 1497, 1492, 32, 1489, 1506, 1514, 32, 1489, 1497,
      1510, 1493, 1506, 32, 1495, 1513, 1497, 1489, 1492, 32, 1506,
      1502, 1493, 1511, 1492, 46, 32, 1488, 1504, 1488, 32, 1504, 1505,
      1492, 32, 1513, 1493, 1489, 46] (str ''General'') NOW_LABEL"

definition WEB_SOURCE :: jstring where
  "WEB_SOURCE = [1502, 1511, 1493, 1512, 32, 1489, 1512, 1513, 1514]"

definition NEWS_FAILED_v2 :: jsobj where
  "NEWS_FAILED_v2 = article4 [1513, 1490, 1497, 1488, 1492, 32, 1489, 1496, 1506, 1497, 1504, 1514,
      32, 1492, 1495, 1491, 1513, 1493, 1514] [1488, 1504, 1488, 32, 1504, 1505, 1492, 32, 1513, 1493, 1489, 32,
      1502, 1488, 1493, 1495, 1512, 32, 1497, 1493, 1514, 1512, 46] (str ''General'') NOW_LABEL"

definition DEEP_FAILED_v2 :: jsobj where
  "DEEP_FAILED_v2 = article4 [1513, 1490, 1497, 1488, 1492, 32, 1489, 1504, 1497, 1514, 1493, 1495] [1492, 1502, 1493, 1491, 1500, 32, 1504, 1514, 1511, 1500, 32, 1489,
      1489, 1506, 1497, 1492, 46] (str ''General'') NOW_LABEL"

definition NO_TITLE :: jstring where
  "NO_TITLE = [1500, 1500, 1488, 32, 1499, 1493, 1514, 1512, 1514]"

definition RECENTLY :: jstring where
  "RECENTLY = [1500, 1488, 1495, 1512, 1493, 1504, 1492]"

subsection \<open>The revision with sequential object extraction\<close>

text \<open>
  The normalisation of both fetch functions: a value that is no array is replaced by
  its truthy \<^verbatim>\<open>news\<close>, else by its truthy \<^verbatim>\<open>articles\<close>; \<open>None\<close> is the early return of
  the placeholder.
\<close>

definition pick_articles_v1 :: "json \<Rightarrow> json option" where
  "pick_articles_v1 articles =
     (if \<not> truthy articles \<or> \<not> isArray articles then
        (if truthy articles \<and> truthy_opt (get_prop articles (str ''news''))
           then get_prop articles (str ''news'')
         else if truthy articles \<and> truthy_opt (get_prop articles (str ''articles''))
           then get_prop articles (str ''articles'')
         else None)
      else Some articles)"

text \<open>
  The callback of \<^verbatim>\<open>fetchNewsFromAgent\<close>. \<open>hostname\<close> stands for
  \<^verbatim>\<open>new URL(url).hostname\<close>, with \<open>None\<close> where the constructor throws.
\<close>

definition attach_link_v1 ::
  "(jstring \<Rightarrow> jstring option) \<Rightarrow> jstring list \<Rightarrow> json \<Rightarrow> nat \<Rightarrow> js_error + jsobj" where
  "attach_link_v1 hostname links article index =
     (let url = (if index < length links then Some (links ! index) else None)
      in case (case url of
                 Some u \<Rightarrow>
                   if u \<noteq> [] then
                     (case hostname u of
                        None \<Rightarrow> Inl TypeError
                      | Some h \<Rightarrow> Inr (replace_first (str ''www.'') [] h))
                   else Inr WEB_SOURCE
               | None \<Rightarrow> Inr WEB_SOURCE) of
           Inl e \<Rightarrow> Inl e
         | Inr sourceName \<Rightarrow>
             Inr (obj_set (str ''sourceName'') (Some (JStr sourceName))
                   (obj_set (str ''sourceUrl'') (map_option JStr url) (spread article))))"

text \<open>The body of the \<^verbatim>\<open>try\<close> block; \<open>Inl\<close> is what it throws.\<close>

definition fetchNewsFromAgent_try_v1 ::
  "(jstring \<Rightarrow> jstring option) \<Rightarrow> js_error + response \<Rightarrow> js_error + jsobj list" where
  "fetchNewsFromAgent_try_v1 hostname answer =
     (case answer of
        Inl e \<Rightarrow> Inl e
      | Inr response \<Rightarrow>
          (case pick_articles_v1 (extractJson_v1 (text_of response)) of
             None \<Rightarrow> Inr [PARSE_FAILED_v1]
           | Some articles \<Rightarrow> js_map (attach_link_v1 hostname (validLinks response)) articles))"

definition fetchNewsFromAgent_v1 ::
  "(jstring \<Rightarrow> jstring option) \<Rightarrow> js_error + response \<Rightarrow> jsobj list" where
  "fetchNewsFromAgent_v1 hostname answer =
     (case fetchNewsFromAgent_try_v1 hostname answer of
        Inl e \<Rightarrow> [COMM_FAILED_v1]
      | Inr r \<Rightarrow> r)"

text \<open>\<^verbatim>\<open>validLinks[i % validLinks.length]\<close>: with no link the index is \<^verbatim>\<open>NaN\<close> and the
  element \<^verbatim>\<open>undefined\<close>.\<close>

definition cycled_link :: "jstring list \<Rightarrow> nat \<Rightarrow> jstring option" where
  "cycled_link links i = (if links = [] then None else Some (links ! (i mod length links)))"

definition GEMINI_ANALYSIS :: jstring where
  "GEMINI_ANALYSIS = str ''Gemini 3 Pro Analysis''"

definition attach_cycled :: "jstring list \<Rightarrow> json \<Rightarrow> nat \<Rightarrow> js_error + jsobj" where
  "attach_cycled links a i =
     Inr (obj_set (str ''sourceName'') (Some (JStr GEMINI_ANALYSIS))
           (obj_set (str ''sourceUrl'') (map_option JStr (cycled_link links i)) (spread a)))"

definition fetchDeepResearch_try_v1 :: "js_error + response \<Rightarrow> js_error + jsobj list" where
  "fetchDeepResearch_try_v1 answer =
     (case answer of
        Inl e \<Rightarrow> Inl e
      | Inr response \<Rightarrow>
          (case pick_articles_v1 (extractJson_v1 (text_of response)) of
             None \<Rightarrow> Inr [DEEP_UNAVAILABLE_v1]
           | Some articles \<Rightarrow> js_map (attach_cycled (validLinks response)) articles))"

definition fetchDeepResearch_v1 :: "js_error + response \<Rightarrow> jsobj list" where
  "fetchDeepResearch_v1 answer =
     (case fetchDeepResearch_try_v1 answer of
        Inl e \<Rightarrow> [DEEP_FAILED_v1]
      | Inr r \<Rightarrow> r)"

subsection \<open>The revision with object extraction\<close>

text \<open>The normalisation of \<^verbatim>\<open>fetchNewsFromAgent\<close>: an array as it is, of an object
  its array \<^verbatim>\<open>news\<close>, else its array \<^verbatim>\<open>articles\<close>, else the object alone; nothing
  for any other value.\<close>

definition isArray_opt :: "json option \<Rightarrow> bool" where
  "isArray_opt v = (case v of None \<Rightarrow> False | Some x \<Rightarrow> isArray x)"

fun elements :: "json \<Rightarrow> json list" where
  "elements (JArr xs) = xs"
| "elements _ = []"

definition articles_of_v2 :: "json \<Rightarrow> json list" where
  "articles_of_v2 data =
     (if isArray data then elements data
      else if truthy data \<and> is_object_like data then
        (if isArray_opt (get_prop data (str ''news''))
           then elements (the (get_prop data (str ''news'')))
         else if isArray_opt (get_prop data (str ''articles''))
           then elements (the (get_prop data (str ''articles'')))
         else [data])
      else [])"

text \<open>\<^verbatim>\<open>article.key || fallback\<close>; the read throws on \<^verbatim>\<open>null\<close>.\<close>

definition field_or :: "json \<Rightarrow> jstring \<Rightarrow> jstring \<Rightarrow> js_error + json" where
  "field_or article k fallback =
     (if article = JNull then Inl TypeError
      else
        (case get_prop article k of
           Some v \<Rightarrow> if truthy v then Inr v else Inr (JStr fallback)
         | None \<Rightarrow> Inr (JStr fallback)))"

definition build_article_v2 ::
  "(jstring \<Rightarrow> jstring option) \<Rightarrow> jstring list \<Rightarrow> json \<Rightarrow> nat \<Rightarrow> js_error + jsobj" where
  "build_article_v2 hostname links article index =
     (let url = cycled_link links index
      in case field_or article (str ''title'') NO_TITLE of
           Inl e \<Rightarrow> Inl e
         | Inr title \<Rightarrow>
         (case field_or article (str ''summary'') [] of
           Inl e \<Rightarrow> Inl e
         | Inr summary \<Rightarrow>
         (case field_or article (str ''category'') (str ''General'') of
           Inl e \<Rightarrow> Inl e
         | Inr category \<Rightarrow>
         (case field_or article (str ''publishedAt'') RECENTLY of
           Inl e \<Rightarrow> Inl e
         | Inr publishedAt \<Rightarrow>
         (case (case url of
                  Some u \<Rightarrow>
                    if u \<noteq> [] then
                      (case hostname u of
                         None \<Rightarrow> Inl TypeError
                       | Some h \<Rightarrow> Inr (Some (JStr (replace_first (str ''www.'') [] h))))
                    else Inr None
                | None \<Rightarrow> Inr None) of
            Inl e \<Rightarrow> Inl e
          | Inr sourceName \<Rightarrow>
              Inr [(str ''title'', Some title), (str ''summary'', Some summary),
                   (str ''category'', Some category), (str ''publishedAt'', Some publishedAt),
                   (str ''sourceUrl'', map_option JStr url),
                   (str ''sourceName'', sourceName)])))))"

definition fetchNewsFromAgent_try_v2 ::
  "(jstring \<Rightarrow> jstring option) \<Rightarrow> js_error + response \<Rightarrow> js_error + jsobj list" where
  "fetchNewsFromAgent_try_v2 hostname answer =
     (case answer of
        Inl e \<Rightarrow> Inl e
      | Inr response \<Rightarrow>
          js_map (build_article_v2 hostname (validLinks response))
            (JArr (articles_of_v2 (extractJson_v2 (text_of response)))))"

definition fetchNewsFromAgent_v2 ::
  "(jstring \<Rightarrow> jstring option) \<Rightarrow> js_error + response \<Rightarrow> jsobj list" where
  "fetchNewsFromAgent_v2 hostname answer =
     (case fetchNewsFromAgent_try_v2 hostname answer of
        Inl e \<Rightarrow> [NEWS_FAILED_v2]
      | Inr r \<Rightarrow> r)"

text \<open>\<^verbatim>\<open>Array.isArray(data) ? data : (data?.articles || [])\<close>.\<close>

definition deep_articles_v2 :: "json \<Rightarrow> json" where
  "deep_articles_v2 data =
     (if isArray data then data
      else if data = JNull then JArr []
      else
        (case get_prop data (str ''articles'') of
           Some v \<Rightarrow> if truthy v then v else JArr []
         | None \<Rightarrow> JArr []))"

definition fetchDeepResearch_try_v2 :: "js_error + response \<Rightarrow> js_error + jsobj list" where
  "fetchDeepResearch_try_v2 answer =
     (case answer of
        Inl e \<Rightarrow> Inl e
      | Inr response \<Rightarrow>
          js_map (attach_cycled (validLinks response))
            (deep_articles_v2 (extractJson_v2 (text_of response))))"

definition fetchDeepResearch_v2 :: "js_error + response \<Rightarrow> jsobj list" where
  "fetchDeepResearch_v2 answer =
     (case fetchDeepResearch_try_v2 answer of
        Inl e \<Rightarrow> [DEEP_FAILED_v2]
      | Inr r \<Rightarrow> r)"


section \<open>The application state\<close>

text \<open>
  The part of the component state of \<^verbatim>\<open>App\<close> that the scan state, the history and the
  timer depend on. \<open>storedHistory\<close> is the entry \<^verbatim>\<open>novaNewsHistory\<close> of local storage,
  which is taken to accept every write. \<open>fetchCalls\<close> is not a variable of the program:
  it records each call of a fetch function, with its topic and whether it was
  \<^verbatim>\<open>fetchDeepResearch\<close>. A \<^verbatim>\<open>Date\<close> is a number of milliseconds. Category filter,
  focus mode and the display settings are not modelled.
\<close>

record agent_state =
  isScanning :: bool
  lastUpdated :: "nat option"
  statusMessage :: jstring

record app =
  articles :: "jsobj list"
  agentState :: agent_state
  error :: "jstring option"
  searchHistory :: "jstring list"
  currentTopic :: jstring
  storedHistory :: "jstring list option"
  fetchCalls :: "(jstring \<times> bool) list"

text \<open>The earlier revision switches the hourly timer on and off; the later one
  has four refresh modes.\<close>

record app_v1 = app +
  isAutoRefresh :: bool

datatype RefreshMode = Manual | Rapid | Hourly | Daily


record app_v2 = app +
  refreshMode :: RefreshMode
  nextRefreshTime :: nat

abbreviation IMAGE_ANALYSIS :: jstring where
  "IMAGE_ANALYSIS \<equiv> str ''Image Analysis''"

text \<open>The Hebrew literals of \<^verbatim>\<open>App\<close>, as UTF-16 code units.\<close>

definition MSG_DEEPMSG1 :: jstring where
  "MSG_DEEPMSG1 =
       [1502, 1489, 1510, 1506, 32, 1504, 1497, 1514, 1493, 1495, 32,
        1506, 1493, 1502, 1511, 32, 1506, 1500, 32, 1492, 1504,
        1493, 1513, 1488, 58, 32]"

definition MSG_PLAINMSG1 :: jstring where
  "MSG_PLAINMSG1 =
       [1505, 1493, 1512, 1511, 32, 1488, 1514, 32, 1492, 1512, 1513,
        1514, 32, 1488, 1495, 1512, 32, 1495, 1491, 1513, 1493,
        1514, 32, 1489, 1504, 1493, 1513, 1488, 58, 32]"

definition MSG_DONE1 :: jstring where
  "MSG_DONE1 =
       [1492, 1506, 1491, 1499, 1493, 1503, 32, 1492, 1493, 1513,
        1500, 1501, 32, 1489, 1492, 1510, 1500, 1495, 1492, 46]"

definition MSG_ERR1 :: jstring where
  "MSG_ERR1 =
       [1488, 1497, 1512, 1506, 1492, 32, 1513, 1490, 1497, 1488,
        1492, 46, 32, 1488, 1504, 1488, 32, 1504, 1505, 1492,
        32, 1513, 1493, 1489, 46]"

definition MSG_IMG1 :: jstring where
  "MSG_IMG1 =
       [1502, 1504, 1514, 1495, 32, 1514, 1502, 1493, 1504, 1492, 46,
        46, 46]"

definition MSG_IMGDONE1 :: jstring where
  "MSG_IMGDONE1 =
       [1492, 1493, 1513, 1500, 1501, 46]"

definition MSG_IMGERR1 :: jstring where
  "MSG_IMGERR1 =
       [1513, 1490, 1497, 1488, 1492, 32, 1489, 1504, 1497, 1514,
        1493, 1495, 32, 1492, 1514, 1502, 1493, 1504, 1492, 46]"

definition MSG_DEEPMSG2 :: jstring where
  "MSG_DEEPMSG2 =
       [1502, 1504, 1514, 1495, 32, 1500, 1506, 1493, 1502, 1511, 58,
        32]"

definition MSG_PLAINMSG2 :: jstring where
  "MSG_PLAINMSG2 =
       [1502, 1495, 1508, 1513, 32, 1495, 1491, 1513, 1493, 1514, 58,
        32]"

definition MSG_DONE2 :: jstring where
  "MSG_DONE2 =
       [1506, 1493, 1491, 1499, 1503, 32, 1489, 1492, 1510, 1500,
        1495, 1492]"

definition MSG_ERR2 :: jstring where
  "MSG_ERR2 =
       [1513, 1490, 1497, 1488, 1492, 32, 1489, 1496, 1506, 1497,
        1504, 1514, 32, 1492, 1504, 1514, 1493, 1504, 1497,
        1501]"

definition MSG_ERRMSG2 :: jstring where
  "MSG_ERRMSG2 =
       [1513, 1490, 1497, 1488, 1492]"

definition MSG_IMG2 :: jstring where
  "MSG_IMG2 =
       [1502, 1508, 1506, 1504, 1495, 32, 1514, 1502, 1493, 1504,
        1492, 46, 46, 46]"

definition MSG_IMGDONE2 :: jstring where
  "MSG_IMGDONE2 =
       [1492, 1493, 1513, 1500, 1501]"

definition MSG_IMGERR2 :: jstring where
  "MSG_IMGERR2 =
       [1513, 1490, 1497, 1488, 1492, 32, 1489, 1492, 1506, 1500,
        1488, 1514, 32, 1492, 1514, 1502, 1493, 1504, 1492]"

subsection \<open>\<^verbatim>\<open>updateNews\<close>\<close>

text \<open>
  An \<^verbatim>\<open>async\<close> function runs up to its first \<^verbatim>\<open>await\<close> when it is called, and the
  rest when the awaited promise settles. \<open>updateNews_start\<close> is the first part, up to
  and with the call of the fetch function; \<open>updateNews_settle\<close> is the second, given
  what the promise settled with (\<open>Inl\<close>: it was rejected) and the time.
\<close>

text \<open>The history update of the earlier revision:
  \<^verbatim>\<open>[topic, ...prev].slice(0, 50)\<close>.\<close>

definition newHistory_v1 :: "jstring \<Rightarrow> jstring list \<Rightarrow> jstring list" where
  "newHistory_v1 topic prev = take 50 (topic # prev)"

text \<open>The history update of the later revision:
  \<^verbatim>\<open>[topic, ...prev.filter(t => t !== topic)].slice(0, 10)\<close>.\<close>

definition newHistory_v2 :: "jstring \<Rightarrow> jstring list \<Rightarrow> jstring list" where
  "newHistory_v2 topic prev = take 10 (topic # filter (\<lambda>t. t \<noteq> topic) prev)"

text \<open>The guard of the history update:
  \<^verbatim>\<open>topic && !topic.startsWith("Image Analysis")\<close>.\<close>

definition recorded_topic :: "jstring \<Rightarrow> bool" where
  "recorded_topic topic \<longleftrightarrow> topic \<noteq> [] \<and> \<not> prefix IMAGE_ANALYSIS topic"

definition updateNews_start_v1 ::
  "jstring \<Rightarrow> bool \<Rightarrow> 'a app_scheme \<Rightarrow> 'a app_scheme" where
  "updateNews_start_v1 topic isDeepSearch st =
     (let st1 = st\<lparr>currentTopic := topic\<rparr>;
          st2 = st1\<lparr>agentState := (agentState st1)\<lparr>
                  isScanning := True,
                  statusMessage :=
                    (if isDeepSearch then MSG_DEEPMSG1 @ topic @ str ''...''
                     else MSG_PLAINMSG1 @ topic @ str ''...'')\<rparr>\<rparr>;
          st3 = st2\<lparr>error := None\<rparr>;
          st4 = (if recorded_topic topic then
                   st3\<lparr>searchHistory := newHistory_v1 topic (searchHistory st3),
                       storedHistory := Some (newHistory_v1 topic (searchHistory st3))\<rparr>
                 else st3)
      in st4\<lparr>fetchCalls := fetchCalls st4 @ [(topic, isDeepSearch)]\<rparr>)"

definition updateNews_settle_v1 ::
  "js_error + jsobj list \<Rightarrow> nat \<Rightarrow> 'a app_scheme \<Rightarrow> 'a app_scheme" where
  "updateNews_settle_v1 outcome now st =
     (case outcome of
        Inr newArticles \<Rightarrow>
          st\<lparr>articles := newArticles,
             agentState := \<lparr>isScanning = False, lastUpdated = Some now,
                            statusMessage = MSG_DONE1\<rparr>\<rparr>
      | Inl err \<Rightarrow>
          st\<lparr>error := Some MSG_ERR1,
             agentState := (agentState st)\<lparr>isScanning := False\<rparr>\<rparr>)"

definition updateNews_start_v2 ::
  "jstring \<Rightarrow> bool \<Rightarrow> 'a app_scheme \<Rightarrow> 'a app_scheme" where
  "updateNews_start_v2 topic isDeepSearch st =
     (let st1 = st\<lparr>currentTopic := topic\<rparr>;
          st2 = st1\<lparr>agentState := (agentState st1)\<lparr>
                  isScanning := True,
                  statusMessage :=
                    (if isDeepSearch then MSG_DEEPMSG2 @ topic @ str ''...''
                     else MSG_PLAINMSG2 @ topic @ str ''...'')\<rparr>\<rparr>;
          st3 = st2\<lparr>error := None\<rparr>;
          st4 = (if recorded_topic topic then
                   st3\<lparr>searchHistory := newHistory_v2 topic (searchHistory st3),
                       storedHistory := Some (newHistory_v2 topic (searchHistory st3))\<rparr>
                 else st3)
      in st4\<lparr>fetchCalls := fetchCalls st4 @ [(topic, isDeepSearch)]\<rparr>)"

definition updateNews_settle_v2 ::
  "js_error + jsobj list \<Rightarrow> nat \<Rightarrow> 'a app_scheme \<Rightarrow> 'a app_scheme" where
  "updateNews_settle_v2 outcome now st =
     (case outcome of
        Inr newArticles \<Rightarrow>
          st\<lparr>articles := newArticles,
             agentState := \<lparr>isScanning = False, lastUpdated = Some now,
                            statusMessage = MSG_DONE2\<rparr>\<rparr>
      | Inl err \<Rightarrow>
          st\<lparr>error := Some MSG_ERR2,
             agentState := (agentState st)\<lparr>isScanning := False,
                            statusMessage := MSG_ERRMSG2\<rparr>\<rparr>)"

text \<open>A whole fetch cycle: the call and the settlement of its promise.\<close>

definition updateNews_v1 ::
  "jstring \<Rightarrow> bool \<Rightarrow> js_error + jsobj list \<Rightarrow> nat \<Rightarrow> 'a app_scheme \<Rightarrow> 'a app_scheme" where
  "updateNews_v1 topic isDeepSearch outcome now st =
     updateNews_settle_v1 outcome now (updateNews_start_v1 topic isDeepSearch st)"

definition updateNews_v2 ::
  "jstring \<Rightarrow> bool \<Rightarrow> js_error + jsobj list \<Rightarrow> nat \<Rightarrow> 'a app_scheme \<Rightarrow> 'a app_scheme" where
  "updateNews_v2 topic isDeepSearch outcome now st =
     updateNews_settle_v2 outcome now (updateNews_start_v2 topic isDeepSearch st)"

subsection \<open>\<^verbatim>\<open>handleImageUpload\<close>\<close>

text \<open>
  What the file reader does: \<open>ReadThrows\<close> when creating it or starting the read
  throws inside the \<^verbatim>\<open>try\<close> block, otherwise \<open>ReadEnds result\<close> when \<^verbatim>\<open>onloadend\<close>
  fires, with \<^verbatim>\<open>reader.result\<close> a string or \<^verbatim>\<open>null\<close>.
\<close>

datatype read_outcome = ReadThrows | ReadEnds "jstring option"

text \<open>\<^verbatim>\<open>result.split(',')[1]\<close>: the text between the first comma and the next,
  \<^verbatim>\<open>undefined\<close> without a comma.\<close>

definition base64_part :: "jstring \<Rightarrow> jstring option" where
  "base64_part result =
     (case indexOf result 44 of
        None \<Rightarrow> None
      | Some i \<Rightarrow> Some (takeWhile (\<lambda>c. c \<noteq> 44) (drop (i + 1) result)))"

text \<open>
  \<open>analyzeImage\<close> stands for the function of that name, which rethrows what it
  catches: \<open>Inl\<close> is its rejection. The handler \<^verbatim>\<open>onloadend\<close> is an \<^verbatim>\<open>async\<close>
  function that runs after \<^verbatim>\<open>handleImageUpload\<close> has left its \<^verbatim>\<open>try\<close> block, so
  what it throws rejects a promise nobody awaits and the state stays as it was.
\<close>

definition handleImageUpload_v1 ::
  "(jstring option \<Rightarrow> js_error + jsobj) \<Rightarrow> read_outcome \<Rightarrow> nat \<Rightarrow> 'a app_scheme \<Rightarrow> 'a app_scheme" where
  "handleImageUpload_v1 analyzeImage reading now st =
     (let st1 = st\<lparr>agentState := (agentState st)\<lparr>isScanning := True, statusMessage := MSG_IMG1\<rparr>\<rparr>
      in case reading of
           ReadThrows \<Rightarrow>
             st1\<lparr>error := Some MSG_IMGERR1,
                 agentState := (agentState st1)\<lparr>isScanning := False\<rparr>\<rparr>
         | ReadEnds result \<Rightarrow>
             (case result of
                None \<Rightarrow> st1
              | Some r \<Rightarrow>
                  (case analyzeImage (base64_part r) of
                     Inl err \<Rightarrow> st1
                   | Inr article \<Rightarrow>
                       st1\<lparr>articles := article # articles st1,
                           agentState := \<lparr>isScanning = False, lastUpdated = Some now,
                                          statusMessage = MSG_IMGDONE1\<rparr>\<rparr>)))"

definition handleImageUpload_v2 ::
  "(jstring option \<Rightarrow> js_error + jsobj) \<Rightarrow> read_outcome \<Rightarrow> nat \<Rightarrow> 'a app_scheme \<Rightarrow> 'a app_scheme" where
  "handleImageUpload_v2 analyzeImage reading now st =
     (let st1 = st\<lparr>agentState := (agentState st)\<lparr>isScanning := True, statusMessage := MSG_IMG2\<rparr>\<rparr>
      in case reading of
           ReadThrows \<Rightarrow>
             st1\<lparr>error := Some MSG_IMGERR2,
                 agentState := (agentState st1)\<lparr>isScanning := False\<rparr>\<rparr>
         | ReadEnds result \<Rightarrow>
             (case result of
                None \<Rightarrow> st1
              | Some r \<Rightarrow>
                  (case analyzeImage (base64_part r) of
                     Inl err \<Rightarrow> st1
                   | Inr article \<Rightarrow>
                       st1\<lparr>articles := article # articles st1,
                           agentState := \<lparr>isScanning = False, lastUpdated = Some now,
                                          statusMessage = MSG_IMGDONE2\<rparr>\<rparr>)))"

subsection \<open>The refresh timer\<close>




subsection \<open>The state at start\<close>

text \<open>The initial values of the \<^verbatim>\<open>useState\<close> calls, before the stored preferences
  are read.\<close>

definition initial_v1 :: app_v1 where
  "initial_v1 =
     \<lparr>articles = [],
      agentState = \<lparr>isScanning = False, lastUpdated = None,
        statusMessage =
       [1492, 1505, 1493, 1499, 1503, 32, 1502, 1502, 1514, 1497,
        1503, 32, 1500, 1508, 1511, 1493, 1491, 1492, 46]\<rparr>,
      error = None, searchHistory = [],
      currentTopic =
       [1492, 1495, 1491, 1513, 1493, 1514, 32, 1492, 1499, 1497, 32,
        1495, 1513, 1493, 1489, 1493, 1514, 32, 1489, 1497,
        1513, 1512, 1488, 1500, 32, 1493, 1489, 1506, 1493,
        1500, 1501, 32, 1502, 1492, 1513, 1506, 1493, 1514, 32,
        1492, 1488, 1495, 1512, 1493, 1504, 1493, 1514],
      storedHistory = None, fetchCalls = [], isAutoRefresh = True\<rparr>"

definition initial_v2 :: app_v2 where
  "initial_v2 =
     \<lparr>articles = [],
      agentState = \<lparr>isScanning = False, lastUpdated = None,
        statusMessage =
       [1502, 1488, 1514, 1495, 1500, 32, 1502, 1506, 1512, 1499,
        1514, 46, 46, 46]\<rparr>,
      error = None, searchHistory = [],
      currentTopic =
       [1495, 1491, 1513, 1493, 1514, 32, 1495, 1502, 1493, 1514, 32,
        1489, 1497, 1513, 1512, 1488, 1500],
      storedHistory = None, fetchCalls = [], refreshMode = Daily, nextRefreshTime = 0\<rparr>"


section \<open>Sequential extraction, as the specification words it\<close>




text \<open>The objects the loop keeps of a list of spans.\<close>

definition kept_objects :: "jstring list \<Rightarrow> json list" where
  "kept_objects spans =
     List.map_filter
       (\<lambda>span. case JSON_parse span of
                  Some obj \<Rightarrow> if is_object_like obj then Some obj else None
                | None \<Rightarrow> None) spans"

text \<open>A stack of the grammar whose outermost frame is an object under
  construction.\<close>

definition object_at_bottom :: "frame list \<Rightarrow> bool" where
  "object_at_bottom stk \<longleftrightarrow> stk \<noteq> [] \<and> (\<exists>ms k. last stk = InObj ms k)"

section \<open>The fenced wrapping\<close>

text \<open>A payload in a fenced block: the opening delimiter with or without the
  language tag on a line of its own, the payload, and the closing delimiter on a line
  of its own.\<close>

definition fenced :: "jstring \<Rightarrow> jstring \<Rightarrow> jstring" where
  "fenced tag payload = FENCE @ tag @ [10] @ payload @ [10] @ FENCE"

section \<open>Answers of the service used as examples\<close>

definition two_records_one_link :: response where
  "two_records_one_link =
     \<lparr>resp_text = Some (str ''[{\"title\":\"A\"},{\"title\":\"B\"}]''),
      resp_chunks = [Some (str ''https://www.a.io/x''), None]\<rparr>"

definition single_object_answer :: response where
  "single_object_answer = \<lparr>resp_text = Some (str ''{\"title\":\"A\"}''), resp_chunks = []\<rparr>"

definition title_only_answer :: response where
  "title_only_answer = \<lparr>resp_text = Some (str ''[{\"title\":\"A\"}]''), resp_chunks = []\<rparr>"

definition empty_array_answer :: response where
  "empty_array_answer = \<lparr>resp_text = Some (str ''[]''), resp_chunks = []\<rparr>"

text \<open>An answer whose \<^verbatim>\<open>news\<close> is a number that reads as zero.\<close>

definition underflow_answer :: response where
  "underflow_answer =
     \<lparr>resp_text = Some (str ''{\"news\":1e-400,\"articles\":[]}''), resp_chunks = []\<rparr>"

definition malformed_answer :: response where
  "malformed_answer = \<lparr>resp_text = Some (str ''Sorry, no data: {\"title\": ''), resp_chunks = []\<rparr>"

definition results_in_prose :: jstring where
  "results_in_prose =
     str ''Here are the results: [{\"title\":\"A\",\"summary\":\"B\",\"category\":\"Tech\",\"publishedAt\":\"now\"}] Thanks''"

definition results_record :: json where
  "results_record =
     JObj [(str ''title'', JStr (str ''A'')), (str ''summary'', JStr (str ''B'')),
           (str ''category'', JStr (str ''Tech'')), (str ''publishedAt'', JStr (str ''now''))]"



section \<open>Properties\<close>

text \<open>The equations that evaluate the definitions on a given text.\<close>

lemmas eval_defs =
  isWs_def trim_def rtrim_def ltrim_def codeBlockMatch_def strip_json_word_def json_tag_ci_def
  cleanedText_v1_def Let_def JSON_parse_def json_ws_def is_digit_def parse_between_def
  lastIndexOf_def substring_def indexOf_from_def scan_object.simps sequential_loop.simps
  sequential_objects_def extractJson_v1_def extractJson_v2_def strip_fence_open_def
  strip_fence_close_def cleaned_v2_def ends_with_def lex_number_def lex_int_def lex_frac_def
  lex_exp_def lex_digits_def lex_escape_def escape_char_def hex_val_def suffix_to_prefix

lemmas fetch_defs =
  fetchNewsFromAgent_v1_def fetchNewsFromAgent_try_v1_def fetchDeepResearch_v1_def
  fetchDeepResearch_try_v1_def fetchNewsFromAgent_v2_def fetchNewsFromAgent_try_v2_def
  fetchDeepResearch_v2_def fetchDeepResearch_try_v2_def pick_articles_v1_def
  articles_of_v2_def deep_articles_v2_def attach_link_v1_def attach_cycled_def
  build_article_v2_def field_or_def cycled_link_def text_of_def validLinks_def
  truthy_opt_def isArray_opt_def obj_get_def replace_first_def List.map_filter_def
  enumerate_eq_zip num_is_zero_def num_mantissa_def num_exponent_def digits_value_def


subsection \<open>The search history\<close>

lemma searchHistory_start_v2:
  "searchHistory (updateNews_start_v2 topic d st) =
     (if recorded_topic topic then newHistory_v2 topic (searchHistory st) else searchHistory st)"
  by (simp add: updateNews_start_v2_def Let_def)

lemma storedHistory_start_v2:
  "storedHistory (updateNews_start_v2 topic d st) =
     (if recorded_topic topic then Some (newHistory_v2 topic (searchHistory st)) else storedHistory st)"
  by (simp add: updateNews_start_v2_def Let_def)

lemma searchHistory_start_v1:
  "searchHistory (updateNews_start_v1 topic d st) =
     (if recorded_topic topic then newHistory_v1 topic (searchHistory st) else searchHistory st)"
  by (simp add: updateNews_start_v1_def Let_def)

lemma storedHistory_start_v1:
  "storedHistory (updateNews_start_v1 topic d st) =
     (if recorded_topic topic then Some (newHistory_v1 topic (searchHistory st)) else storedHistory st)"
  by (simp add: updateNews_start_v1_def Let_def)

lemma searchHistory_settle_v2 [simp]:
  "searchHistory (updateNews_settle_v2 outcome now st) = searchHistory st"
  "storedHistory (updateNews_settle_v2 outcome now st) = storedHistory st"
  by (simp_all add: updateNews_settle_v2_def split: sum.splits)

lemma searchHistory_settle_v1 [simp]:
  "searchHistory (updateNews_settle_v1 outcome now st) = searchHistory st"
  "storedHistory (updateNews_settle_v1 outcome now st) = storedHistory st"
  by (simp_all add: updateNews_settle_v1_def split: sum.splits)

lemma count_list_take_le: "count_list (take n xs) x \<le> count_list xs x"
  by (induction xs arbitrary: n) (auto simp: take_Cons split: nat.splits)

lemma count_list_filter_neq: "count_list (filter (\<lambda>t. t \<noteq> x) xs) x = 0"
  by (induction xs) auto

lemma newHistory_v2_shape:
  "\<exists>rest. newHistory_v2 topic prev = topic # rest \<and> topic \<notin> set rest"
proof -
  have "newHistory_v2 topic prev = topic # take 9 (filter (\<lambda>t. t \<noteq> topic) prev)"
    by (simp add: newHistory_v2_def take_Cons)
  moreover have "topic \<notin> set (take 9 (filter (\<lambda>t. t \<noteq> topic) prev))"
    using set_take_subset [of 9 "filter (\<lambda>t. t \<noteq> topic) prev"] by auto
  ultimately show ?thesis by blast
qed

text \<open>
  Claim C10, as the code has it. A submitted topic that is not empty and does not
  start with \<^verbatim>\<open>Image Analysis\<close> is recorded: in the later revision the history then
  starts with the topic, holds it exactly once and has at most 10 entries; in the
  earlier revision the topic is put in front without removing its older entries and
  the history has at most 50 entries. In both the same list is written to local
  storage. Any other topic leaves the history as it was.
\<close>

theorem history_after_submission:
  fixes st :: app_v2 and st' :: app_v1
  shows
  "(recorded_topic topic \<longrightarrow>
      (\<exists>rest. searchHistory (updateNews_v2 topic d outcome now st) = topic # rest
             \<and> topic \<notin> set rest)
      \<and> count_list (searchHistory (updateNews_v2 topic d outcome now st)) topic = 1
      \<and> length (searchHistory (updateNews_v2 topic d outcome now st)) \<le> 10
      \<and> storedHistory (updateNews_v2 topic d outcome now st)
          = Some (searchHistory (updateNews_v2 topic d outcome now st)))
   \<and> (\<not> recorded_topic topic \<longrightarrow>
        searchHistory (updateNews_v2 topic d outcome now st) = searchHistory st
        \<and> storedHistory (updateNews_v2 topic d outcome now st) = storedHistory st)
   \<and> (recorded_topic topic \<longrightarrow>
        searchHistory (updateNews_v1 topic d outcome now st') = take 50 (topic # searchHistory st')
        \<and> hd (searchHistory (updateNews_v1 topic d outcome now st')) = topic
        \<and> length (searchHistory (updateNews_v1 topic d outcome now st')) \<le> 50
        \<and> storedHistory (updateNews_v1 topic d outcome now st')
            = Some (searchHistory (updateNews_v1 topic d outcome now st')))
   \<and> (\<not> recorded_topic topic \<longrightarrow>
        searchHistory (updateNews_v1 topic d outcome now st') = searchHistory st'
        \<and> storedHistory (updateNews_v1 topic d outcome now st') = storedHistory st')"
proof -
  obtain rest where r: "newHistory_v2 topic (searchHistory st) = topic # rest" "topic \<notin> set rest"
    using newHistory_v2_shape by blast
  have c: "count_list (newHistory_v2 topic (searchHistory st)) topic = 1"
    using r by (simp add: count_list_0_iff)
  have l: "length (newHistory_v2 topic (searchHistory st)) \<le> 10"
    by (simp add: newHistory_v2_def)
  have l1: "length (newHistory_v1 topic (searchHistory st')) \<le> 50"
    by (simp add: newHistory_v1_def)
  have h1: "hd (newHistory_v1 topic (searchHistory st')) = topic"
    by (simp add: newHistory_v1_def take_Cons)
  show ?thesis
    using r c l l1 h1
    by (simp add: updateNews_v2_def updateNews_v1_def searchHistory_start_v2
        storedHistory_start_v2 searchHistory_start_v1 storedHistory_start_v1
        newHistory_v1_def)
qed

theorem history_after_submission_witness:
  "recorded_topic (str ''a'')
   \<and> searchHistory (updateNews_v2 (str ''a'') False (Inr []) 7
        (initial_v2\<lparr>searchHistory := [str ''b'', str ''a'', str ''c'', str ''a'']\<rparr>))
      = [str ''a'', str ''b'', str ''c'']
   \<and> \<not> recorded_topic (str ''Image Analysis of a chart'')
   \<and> searchHistory (updateNews_v2 (str ''Image Analysis of a chart'') False (Inr []) 7
        (initial_v2\<lparr>searchHistory := [str ''b'']\<rparr>)) = [str ''b'']
   \<and> searchHistory (updateNews_v1 (str ''a'') False (Inr []) 7
        (initial_v1\<lparr>searchHistory := [str ''b'', str ''a'']\<rparr>))
      = [str ''a'', str ''b'', str ''a'']"
  using history_after_submission [of "str ''a''" False "Inr []" 7
      "initial_v2\<lparr>searchHistory := [str ''b'', str ''a'', str ''c'', str ''a'']\<rparr>"
      "initial_v1\<lparr>searchHistory := [str ''b'', str ''a'']\<rparr>"]
    history_after_submission [of "str ''Image Analysis of a chart''" False "Inr []" 7
      "initial_v2\<lparr>searchHistory := [str ''b'']\<rparr>" initial_v1]
  by (simp add: recorded_topic_def initial_v2_def initial_v1_def updateNews_v2_def
      updateNews_v1_def searchHistory_start_v2 searchHistory_start_v1 newHistory_v2_def
      newHistory_v1_def)

text \<open>
  Against claim C10 as stated: a topic starting with \<^verbatim>\<open>Image Analysis\<close> is not recorded
  at all, and the earlier revision keeps the older entry of a topic submitted again.
\<close>

theorem history_counterexample:
  "count_list (searchHistory (updateNews_v2 (str ''Image Analysis of a chart'') False (Inr []) 7 initial_v2))
      (str ''Image Analysis of a chart'') = 0
   \<and> count_list (searchHistory (updateNews_v1 (str ''a'') False (Inr []) 7
        (initial_v1\<lparr>searchHistory := [str ''a'']\<rparr>))) (str ''a'') = 2"
  by (simp add: recorded_topic_def initial_v2_def initial_v1_def updateNews_v2_def
      updateNews_v1_def searchHistory_start_v2 searchHistory_start_v1 newHistory_v2_def
      newHistory_v1_def)

subsection \<open>Numbers that read as zero\<close>

text \<open>A literal of zero digits and a literal that underflows are falsy; the boundary
  lies between \<^verbatim>\<open>2e-324\<close> and \<^verbatim>\<open>3e-324\<close>, half the least positive double being about
  \<^verbatim>\<open>2.47e-324\<close>.\<close>

lemmas number_defs =
  num_is_zero_def num_mantissa_def num_exponent_def digits_value_def is_digit_def

lemma num_is_zero_examples:
  "num_is_zero (str ''0'')" "num_is_zero (str ''-0.000e5'')" "num_is_zero (str ''1e-400'')"
  "num_is_zero (str ''2e-324'')" "\<not> num_is_zero (str ''3e-324'')"
  "\<not> num_is_zero (str ''0.25e-322'')" "\<not> num_is_zero (str ''1'')"
  "\<not> num_is_zero (str ''12.5E+3'')"
  by (simp_all add: number_defs)

lemma underflow_answer_facts:
  "extractJson_v1 (text_of underflow_answer)
     = JObj [(str ''news'', JNum (str ''1e-400'')), (str ''articles'', JArr [])]"
  "\<not> truthy (JNum (str ''1e-400''))"
  by (simp_all add: underflow_answer_def text_of_def eval_defs number_defs)

subsection \<open>Objects and callbacks\<close>

lemma map_of_obj_set: "map_of (obj_set k v ps) = (map_of ps)(k \<mapsto> v)"
  by (induction ps) auto

lemma obj_get_obj_set:
  "obj_get (obj_set k v ob) k' = (if k' = k then v else obj_get ob k')"
  by (simp add: obj_get_def map_of_obj_set)

lemma collect_Inr_nth:
  "collect fs = Inr ys \<Longrightarrow> length ys = length fs \<and> (\<forall>i<length fs. fs ! i = Inr (ys ! i))"
proof (induction fs arbitrary: ys rule: collect.induct)
  case 1
  then show ?case by simp
next
  case (2 e rs)
  then show ?case by simp
next
  case (3 x rs)
  from "3.prems" obtain xs where c: "collect rs = Inr xs" and y: "ys = x # xs"
    by (auto split: sum.splits)
  from "3.IH" [OF c] y show ?case
    by (auto simp: nth_Cons split: nat.splits)
qed

lemma collect_all_Inr:
  "(\<forall>i<length fs. \<exists>y. fs ! i = Inr y) \<Longrightarrow> \<exists>ys. collect fs = Inr ys"
proof (induction fs rule: collect.induct)
  case 1
  then show ?case by simp
next
  case (2 e rs)
  then have "\<exists>y. (Inl e # rs) ! 0 = Inr y" by blast
  then show ?case by simp
next
  case (3 x rs)
  have "\<forall>i<length rs. \<exists>y. rs ! i = Inr y"
  proof (intro allI impI)
    fix i assume "i < length rs"
    then have "Suc i < length (Inr x # rs)" by simp
    with "3.prems" have "\<exists>y. (Inr x # rs) ! Suc i = Inr y" by blast
    then show "\<exists>y. rs ! i = Inr y" by simp
  qed
  from "3.IH" [OF this] show ?case by auto
qed

lemma js_map_Inr_nth:
  assumes "js_map f (JArr xs) = Inr ys"
  shows "length ys = length xs \<and> (\<forall>i<length xs. f (xs ! i) i = Inr (ys ! i))"
proof -
  let ?fs = "map (\<lambda>(i, x). f x i) (enumerate 0 xs)"
  from assms have c: "collect ?fs = Inr ys" by simp
  from collect_Inr_nth [OF c]
  have l: "length ys = length ?fs" and n: "\<forall>i<length ?fs. ?fs ! i = Inr (ys ! i)" by auto
  have fs: "\<And>i. i < length xs \<Longrightarrow> ?fs ! i = f (xs ! i) i"
    by (simp add: nth_enumerate_eq)
  from l n fs show ?thesis by simp
qed

lemma js_map_all_Inr:
  assumes "\<forall>i<length xs. \<exists>y. f (xs ! i) i = Inr y"
  shows "\<exists>ys. js_map f (JArr xs) = Inr ys"
proof -
  let ?fs = "map (\<lambda>(i, x). f x i) (enumerate 0 xs)"
  have "\<forall>i<length ?fs. \<exists>y. ?fs ! i = Inr y"
    using assms by (simp add: nth_enumerate_eq)
  from collect_all_Inr [OF this] show ?thesis by simp
qed

lemma validLinks_nonempty: "u \<in> set (validLinks r) \<Longrightarrow> u \<noteq> []"
  by (auto simp: validLinks_def List.map_filter_def split: option.splits if_splits)

lemma sourceUrl_attach_link_v1:
  "attach_link_v1 hostname links a i = Inr ob \<Longrightarrow>
   obj_get ob (str ''sourceUrl'') = (if i < length links then Some (JStr (links ! i)) else None)"
  by (auto simp: attach_link_v1_def Let_def obj_get_obj_set split: sum.splits option.splits if_splits)

lemma attach_link_v1_returns:
  "(i < length links \<longrightarrow> hostname (links ! i) \<noteq> None) \<Longrightarrow>
   \<exists>ob. attach_link_v1 hostname links a i = Inr ob"
  by (auto simp: attach_link_v1_def Let_def split: sum.splits option.splits if_splits)

lemma sourceUrl_attach_cycled:
  "attach_cycled links a i = Inr ob \<Longrightarrow>
   obj_get ob (str ''sourceUrl'') = map_option JStr (cycled_link links i)"
  by (auto simp: attach_cycled_def obj_get_obj_set)

lemma sourceUrl_build_article_v2:
  "build_article_v2 hostname links a i = Inr ob \<Longrightarrow>
   obj_get ob (str ''sourceUrl'') = map_option JStr (cycled_link links i)"
  by (auto simp: build_article_v2_def Let_def obj_get_def split: sum.splits option.splits if_splits)

lemma field_or_returns: "a \<noteq> JNull \<Longrightarrow> \<exists>v. field_or a k d = Inr v"
  by (auto simp: field_or_def split: option.splits)

lemma build_article_v2_returns:
  assumes "a \<noteq> JNull" and "\<forall>u\<in>set links. hostname u \<noteq> None"
  shows "\<exists>ob. build_article_v2 hostname links a i = Inr ob"
proof -
  have h: "links \<noteq> [] \<longrightarrow> hostname (links ! (i mod length links)) \<noteq> None"
    using assms(2) by simp
  obtain t s c p where
    "field_or a (str ''title'') NO_TITLE = Inr t" "field_or a (str ''summary'') [] = Inr s"
    "field_or a (str ''category'') (str ''General'') = Inr c"
    "field_or a (str ''publishedAt'') RECENTLY = Inr p"
    using field_or_returns [OF assms(1)] by metis
  then show ?thesis
    using h by (auto simp: build_article_v2_def Let_def cycled_link_def split: option.splits)
qed

lemma cycled_link_some: "links \<noteq> [] \<Longrightarrow> \<exists>u\<in>set links. cycled_link links i = Some u"
  by (simp add: cycled_link_def)

subsection \<open>Source links\<close>

text \<open>
  Claim C5, as the code has it. When the normalised value is an array and every link
  parses as a URL, \<^verbatim>\<open>fetchNewsFromAgent\<close> of the revision with sequential extraction
  gives record \<open>i\<close> the link \<open>i\<close> and no \<^verbatim>\<open>sourceUrl\<close> from the number of links on.
  \<^verbatim>\<open>fetchDeepResearch\<close> of both revisions gives record \<open>i\<close> the link \<open>i mod n\<close> of
  the \<open>n\<close> links, and so does \<^verbatim>\<open>fetchNewsFromAgent\<close> of the revision with object
  extraction (for elements other than \<^verbatim>\<open>null\<close>). With at least one link, \<open>i mod n\<close>
  always names a link.
\<close>

theorem link_assignment:
  "(pick_articles_v1 (extractJson_v1 (text_of r)) = Some (JArr xs)
      \<and> (\<forall>u\<in>set (validLinks r). hostname u \<noteq> None) \<longrightarrow>
      length (fetchNewsFromAgent_v1 hostname (Inr r)) = length xs
      \<and> (\<forall>i<length xs.
            obj_get (fetchNewsFromAgent_v1 hostname (Inr r) ! i) (str ''sourceUrl'')
              = (if i < length (validLinks r) then Some (JStr (validLinks r ! i)) else None)))
   \<and> (pick_articles_v1 (extractJson_v1 (text_of r)) = Some (JArr xs) \<longrightarrow>
      length (fetchDeepResearch_v1 (Inr r)) = length xs
      \<and> (\<forall>i<length xs.
            obj_get (fetchDeepResearch_v1 (Inr r) ! i) (str ''sourceUrl'')
              = map_option JStr (cycled_link (validLinks r) i)))
   \<and> (deep_articles_v2 (extractJson_v2 (text_of r)) = JArr xs \<longrightarrow>
      length (fetchDeepResearch_v2 (Inr r)) = length xs
      \<and> (\<forall>i<length xs.
            obj_get (fetchDeepResearch_v2 (Inr r) ! i) (str ''sourceUrl'')
              = map_option JStr (cycled_link (validLinks r) i)))
   \<and> (articles_of_v2 (extractJson_v2 (text_of r)) = xs \<and> JNull \<notin> set xs
      \<and> (\<forall>u\<in>set (validLinks r). hostname u \<noteq> None) \<longrightarrow>
      length (fetchNewsFromAgent_v2 hostname (Inr r)) = length xs
      \<and> (\<forall>i<length xs.
            obj_get (fetchNewsFromAgent_v2 hostname (Inr r) ! i) (str ''sourceUrl'')
              = map_option JStr (cycled_link (validLinks r) i)))
   \<and> (validLinks r \<noteq> [] \<longrightarrow>
        (\<exists>u\<in>set (validLinks r). cycled_link (validLinks r) i = Some u))"
proof (intro conjI impI)
  assume a: "pick_articles_v1 (extractJson_v1 (text_of r)) = Some (JArr xs)
      \<and> (\<forall>u\<in>set (validLinks r). hostname u \<noteq> None)"
  let ?f = "attach_link_v1 hostname (validLinks r)"
  have "\<forall>i<length xs. \<exists>y. ?f (xs ! i) i = Inr y"
    using a attach_link_v1_returns [of _ "validLinks r" hostname] by simp
  from js_map_all_Inr [of xs ?f, OF this] obtain ys where ys: "js_map ?f (JArr xs) = Inr ys" by blast
  from a ys have res: "fetchNewsFromAgent_v1 hostname (Inr r) = ys"
    by (simp add: fetchNewsFromAgent_v1_def fetchNewsFromAgent_try_v1_def)
  from js_map_Inr_nth [OF ys] sourceUrl_attach_link_v1 [of hostname "validLinks r"]
  have "length ys = length xs"
    and "\<forall>i<length xs. obj_get (ys ! i) (str ''sourceUrl'')
           = (if i < length (validLinks r) then Some (JStr (validLinks r ! i)) else None)"
    by auto
  with res show "length (fetchNewsFromAgent_v1 hostname (Inr r)) = length xs"
    and "\<forall>i<length xs.
            obj_get (fetchNewsFromAgent_v1 hostname (Inr r) ! i) (str ''sourceUrl'')
              = (if i < length (validLinks r) then Some (JStr (validLinks r ! i)) else None)"
    by simp_all
next
  assume a: "pick_articles_v1 (extractJson_v1 (text_of r)) = Some (JArr xs)"
  let ?f = "attach_cycled (validLinks r)"
  have "\<forall>i<length xs. \<exists>y. ?f (xs ! i) i = Inr y"
    by (simp add: attach_cycled_def)
  from js_map_all_Inr [of xs ?f, OF this] obtain ys where ys: "js_map ?f (JArr xs) = Inr ys" by blast
  from a ys have res: "fetchDeepResearch_v1 (Inr r) = ys"
    by (simp add: fetchDeepResearch_v1_def fetchDeepResearch_try_v1_def)
  from js_map_Inr_nth [OF ys] sourceUrl_attach_cycled [of "validLinks r"]
  have "length ys = length xs"
    and "\<forall>i<length xs. obj_get (ys ! i) (str ''sourceUrl'')
           = map_option JStr (cycled_link (validLinks r) i)"
    by auto
  with res show "length (fetchDeepResearch_v1 (Inr r)) = length xs"
    and "\<forall>i<length xs.
            obj_get (fetchDeepResearch_v1 (Inr r) ! i) (str ''sourceUrl'')
              = map_option JStr (cycled_link (validLinks r) i)"
    by simp_all
next
  assume a: "deep_articles_v2 (extractJson_v2 (text_of r)) = JArr xs"
  let ?f = "attach_cycled (validLinks r)"
  have "\<forall>i<length xs. \<exists>y. ?f (xs ! i) i = Inr y"
    by (simp add: attach_cycled_def)
  from js_map_all_Inr [of xs ?f, OF this] obtain ys where ys: "js_map ?f (JArr xs) = Inr ys" by blast
  from a ys have res: "fetchDeepResearch_v2 (Inr r) = ys"
    by (simp add: fetchDeepResearch_v2_def fetchDeepResearch_try_v2_def)
  from js_map_Inr_nth [OF ys] sourceUrl_attach_cycled [of "validLinks r"]
  have "length ys = length xs"
    and "\<forall>i<length xs. obj_get (ys ! i) (str ''sourceUrl'')
           = map_option JStr (cycled_link (validLinks r) i)"
    by auto
  with res show "length (fetchDeepResearch_v2 (Inr r)) = length xs"
    and "\<forall>i<length xs.
            obj_get (fetchDeepResearch_v2 (Inr r) ! i) (str ''sourceUrl'')
              = map_option JStr (cycled_link (validLinks r) i)"
    by simp_all
next
  assume a: "articles_of_v2 (extractJson_v2 (text_of r)) = xs \<and> JNull \<notin> set xs
      \<and> (\<forall>u\<in>set (validLinks r). hostname u \<noteq> None)"
  let ?f = "build_article_v2 hostname (validLinks r)"
  have "\<forall>i<length xs. \<exists>y. ?f (xs ! i) i = Inr y"
  proof (intro allI impI)
    fix i assume "i < length xs"
    with a have "xs ! i \<noteq> JNull" by (metis nth_mem)
    with a show "\<exists>y. ?f (xs ! i) i = Inr y"
      using build_article_v2_returns by blast
  qed
  from js_map_all_Inr [of xs ?f, OF this] obtain ys where ys: "js_map ?f (JArr xs) = Inr ys" by blast
  from a ys have res: "fetchNewsFromAgent_v2 hostname (Inr r) = ys"
    by (simp add: fetchNewsFromAgent_v2_def fetchNewsFromAgent_try_v2_def)
  from js_map_Inr_nth [OF ys] sourceUrl_build_article_v2 [of hostname "validLinks r"]
  have "length ys = length xs"
    and "\<forall>i<length xs. obj_get (ys ! i) (str ''sourceUrl'')
           = map_option JStr (cycled_link (validLinks r) i)"
    by auto
  with res show "length (fetchNewsFromAgent_v2 hostname (Inr r)) = length xs"
    and "\<forall>i<length xs.
            obj_get (fetchNewsFromAgent_v2 hostname (Inr r) ! i) (str ''sourceUrl'')
              = map_option JStr (cycled_link (validLinks r) i)"
    by simp_all
next
  assume "validLinks r \<noteq> []"
  then show "\<exists>u\<in>set (validLinks r). cycled_link (validLinks r) i = Some u"
    by (rule cycled_link_some)
qed

lemma two_records_one_link_facts:
  "validLinks two_records_one_link = [str ''https://www.a.io/x'']"
  "extractJson_v1 (text_of two_records_one_link)
     = JArr [JObj [(str ''title'', JStr (str ''A''))], JObj [(str ''title'', JStr (str ''B''))]]"
  "extractJson_v2 (text_of two_records_one_link)
     = JArr [JObj [(str ''title'', JStr (str ''A''))], JObj [(str ''title'', JStr (str ''B''))]]"
  by (simp_all add: two_records_one_link_def validLinks_def List.map_filter_def text_of_def
      eval_defs suffix_to_prefix)

lemma map_two:
  assumes "length ys = 2" and "f (ys ! 0) = a" and "f (ys ! 1) = b"
  shows "map f ys = [a, b]"
proof -
  from assms(1) obtain y0 y1 where "ys = [y0, y1]"
    by (cases ys; cases "tl ys") auto
  with assms(2,3) show ?thesis by simp
qed

theorem link_assignment_witness:
  "map (\<lambda>ob. obj_get ob (str ''sourceUrl''))
      (fetchNewsFromAgent_v1 (\<lambda>u. Some (str ''www.a.io'')) (Inr two_records_one_link))
     = [Some (JStr (str ''https://www.a.io/x'')), None]
   \<and> map (\<lambda>ob. obj_get ob (str ''sourceUrl'')) (fetchDeepResearch_v1 (Inr two_records_one_link))
     = [Some (JStr (str ''https://www.a.io/x'')), Some (JStr (str ''https://www.a.io/x''))]
   \<and> map (\<lambda>ob. obj_get ob (str ''sourceUrl'')) (fetchDeepResearch_v2 (Inr two_records_one_link))
     = [Some (JStr (str ''https://www.a.io/x'')), Some (JStr (str ''https://www.a.io/x''))]
   \<and> map (\<lambda>ob. obj_get ob (str ''sourceUrl''))
      (fetchNewsFromAgent_v2 (\<lambda>u. Some (str ''www.a.io'')) (Inr two_records_one_link))
     = [Some (JStr (str ''https://www.a.io/x'')), Some (JStr (str ''https://www.a.io/x''))]"
proof -
  let ?xs = "[JObj [(str ''title'', JStr (str ''A''))], JObj [(str ''title'', JStr (str ''B''))]]"
  let ?h = "\<lambda>u :: jstring. Some (str ''www.a.io'')"
  let ?u = "Some (JStr (str ''https://www.a.io/x''))"
  let ?url = "\<lambda>ob. obj_get ob (str ''sourceUrl'')"
  have h: "pick_articles_v1 (extractJson_v1 (text_of two_records_one_link)) = Some (JArr ?xs)"
    "deep_articles_v2 (extractJson_v2 (text_of two_records_one_link)) = JArr ?xs"
    "articles_of_v2 (extractJson_v2 (text_of two_records_one_link)) = ?xs"
    by (simp_all add: two_records_one_link_facts pick_articles_v1_def deep_articles_v2_def
        articles_of_v2_def)
  have c: "cycled_link (validLinks two_records_one_link) 0 = Some (str ''https://www.a.io/x'')"
    "cycled_link (validLinks two_records_one_link) (Suc 0) = Some (str ''https://www.a.io/x'')"
    by (simp_all add: two_records_one_link_facts cycled_link_def)
  note t = link_assignment [of two_records_one_link ?xs ?h 0]
  from t [THEN conjunct1] h(1)
  have p1: "length (fetchNewsFromAgent_v1 ?h (Inr two_records_one_link)) = 2
      \<and> ?url (fetchNewsFromAgent_v1 ?h (Inr two_records_one_link) ! 0) = ?u
      \<and> ?url (fetchNewsFromAgent_v1 ?h (Inr two_records_one_link) ! 1) = None"
    by (simp add: two_records_one_link_facts(1) All_less_Suc)
  from t [THEN conjunct2, THEN conjunct1] h(1)
  have p2: "length (fetchDeepResearch_v1 (Inr two_records_one_link)) = 2
      \<and> ?url (fetchDeepResearch_v1 (Inr two_records_one_link) ! 0) = ?u
      \<and> ?url (fetchDeepResearch_v1 (Inr two_records_one_link) ! 1) = ?u"
    by (simp add: c All_less_Suc)
  from t [THEN conjunct2, THEN conjunct2, THEN conjunct1] h(2)
  have p3: "length (fetchDeepResearch_v2 (Inr two_records_one_link)) = 2
      \<and> ?url (fetchDeepResearch_v2 (Inr two_records_one_link) ! 0) = ?u
      \<and> ?url (fetchDeepResearch_v2 (Inr two_records_one_link) ! 1) = ?u"
    by (simp add: c All_less_Suc)
  from t [THEN conjunct2, THEN conjunct2, THEN conjunct2, THEN conjunct1] h(3)
  have p4: "length (fetchNewsFromAgent_v2 ?h (Inr two_records_one_link)) = 2
      \<and> ?url (fetchNewsFromAgent_v2 ?h (Inr two_records_one_link) ! 0) = ?u
      \<and> ?url (fetchNewsFromAgent_v2 ?h (Inr two_records_one_link) ! 1) = ?u"
    by (simp add: two_records_one_link_facts(1) cycled_link_def All_less_Suc)
  show ?thesis
    using p1 p2 p3 p4 by (intro conjI map_two) simp_all
qed

text \<open>
  Against claim C5 as stated: in the revision with object extraction the plain
  search gives the second of two records the only link, although its index is not
  below the number of links.
\<close>

theorem link_assignment_counterexample:
  "obj_get (fetchNewsFromAgent_v2 (\<lambda>u. Some (str ''www.a.io'')) (Inr two_records_one_link) ! 1)
      (str ''sourceUrl'') = Some (JStr (str ''https://www.a.io/x''))
   \<and> \<not> 1 < length (validLinks two_records_one_link)"
  by (simp add: two_records_one_link_def fetch_defs eval_defs suffix_to_prefix decimal.simps)

subsection \<open>A single object\<close>

lemma single_object_answer_facts:
  "validLinks single_object_answer = []"
  "extractJson_v1 (text_of single_object_answer) = JObj [(str ''title'', JStr (str ''A''))]"
  "extractJson_v2 (text_of single_object_answer) = JObj [(str ''title'', JStr (str ''A''))]"
  by (simp_all add: single_object_answer_def validLinks_def List.map_filter_def text_of_def
      eval_defs suffix_to_prefix)

text \<open>
  Claim C6, as the code has it. For a parsed object, \<^verbatim>\<open>fetchNewsFromAgent\<close> of the
  revision with object extraction takes the array under \<^verbatim>\<open>news\<close>, else the array
  under \<^verbatim>\<open>articles\<close>, else the object alone as a sequence of one, which then gives one
  record. The revision with sequential extraction takes a truthy \<^verbatim>\<open>news\<close>, else a
  truthy \<^verbatim>\<open>articles\<close>, and for an object with neither returns its placeholder record.
\<close>

theorem single_object_normalization:
  "(map_of ms (str ''news'') = Some (JArr xs) \<longrightarrow> articles_of_v2 (JObj ms) = xs)
   \<and> (\<not> isArray_opt (map_of ms (str ''news'')) \<and> map_of ms (str ''articles'') = Some (JArr ys)
        \<longrightarrow> articles_of_v2 (JObj ms) = ys)
   \<and> (\<not> isArray_opt (map_of ms (str ''news'')) \<and> \<not> isArray_opt (map_of ms (str ''articles''))
        \<longrightarrow> articles_of_v2 (JObj ms) = [JObj ms])
   \<and> (extractJson_v2 (text_of r) = JObj ms
        \<and> \<not> isArray_opt (map_of ms (str ''news'')) \<and> \<not> isArray_opt (map_of ms (str ''articles''))
        \<and> (\<forall>u\<in>set (validLinks r). hostname u \<noteq> None)
        \<longrightarrow> (\<exists>ob. fetchNewsFromAgent_v2 hostname (Inr r) = [ob]
                 \<and> build_article_v2 hostname (validLinks r) (JObj ms) 0 = Inr ob))
   \<and> (map_of ms (str ''news'') = Some v \<and> truthy v \<longrightarrow> pick_articles_v1 (JObj ms) = Some v)
   \<and> (\<not> truthy_opt (map_of ms (str ''news'')) \<and> map_of ms (str ''articles'') = Some v \<and> truthy v
        \<longrightarrow> pick_articles_v1 (JObj ms) = Some v)
   \<and> (extractJson_v1 (text_of r) = JObj ms
        \<and> \<not> truthy_opt (map_of ms (str ''news'')) \<and> \<not> truthy_opt (map_of ms (str ''articles''))
        \<longrightarrow> fetchNewsFromAgent_v1 hostname (Inr r) = [PARSE_FAILED_v1]
          \<and> fetchDeepResearch_v1 (Inr r) = [DEEP_UNAVAILABLE_v1])"
proof (intro conjI impI)
  assume "map_of ms (str ''news'') = Some (JArr xs)"
  then show "articles_of_v2 (JObj ms) = xs"
    by (simp add: articles_of_v2_def isArray_opt_def)
next
  assume "\<not> isArray_opt (map_of ms (str ''news'')) \<and> map_of ms (str ''articles'') = Some (JArr ys)"
  then show "articles_of_v2 (JObj ms) = ys"
    by (simp add: articles_of_v2_def isArray_opt_def)
next
  assume "\<not> isArray_opt (map_of ms (str ''news'')) \<and> \<not> isArray_opt (map_of ms (str ''articles''))"
  then show "articles_of_v2 (JObj ms) = [JObj ms]"
    by (simp add: articles_of_v2_def)
next
  assume a: "extractJson_v2 (text_of r) = JObj ms
        \<and> \<not> isArray_opt (map_of ms (str ''news'')) \<and> \<not> isArray_opt (map_of ms (str ''articles''))
        \<and> (\<forall>u\<in>set (validLinks r). hostname u \<noteq> None)"
  then have w: "articles_of_v2 (extractJson_v2 (text_of r)) = [JObj ms]"
    by (simp add: articles_of_v2_def)
  from a build_article_v2_returns [of "JObj ms" "validLinks r" hostname 0]
  obtain ob where ob: "build_article_v2 hostname (validLinks r) (JObj ms) 0 = Inr ob"
    by auto
  with w have "fetchNewsFromAgent_v2 hostname (Inr r) = [ob]"
    by (simp add: fetchNewsFromAgent_v2_def fetchNewsFromAgent_try_v2_def enumerate_eq_zip)
  with ob show "\<exists>ob. fetchNewsFromAgent_v2 hostname (Inr r) = [ob]
      \<and> build_article_v2 hostname (validLinks r) (JObj ms) 0 = Inr ob"
    by simp
next
  assume "map_of ms (str ''news'') = Some v \<and> truthy v"
  then show "pick_articles_v1 (JObj ms) = Some v"
    by (simp add: pick_articles_v1_def truthy_opt_def)
next
  assume "\<not> truthy_opt (map_of ms (str ''news'')) \<and> map_of ms (str ''articles'') = Some v \<and> truthy v"
  then show "pick_articles_v1 (JObj ms) = Some v"
    by (simp add: pick_articles_v1_def truthy_opt_def)
next
  assume a: "extractJson_v1 (text_of r) = JObj ms
        \<and> \<not> truthy_opt (map_of ms (str ''news'')) \<and> \<not> truthy_opt (map_of ms (str ''articles''))"
  then have "pick_articles_v1 (extractJson_v1 (text_of r)) = None"
    by (simp add: pick_articles_v1_def)
  then show "fetchNewsFromAgent_v1 hostname (Inr r) = [PARSE_FAILED_v1]"
    and "fetchDeepResearch_v1 (Inr r) = [DEEP_UNAVAILABLE_v1]"
    by (simp_all add: fetchNewsFromAgent_v1_def fetchNewsFromAgent_try_v1_def
        fetchDeepResearch_v1_def fetchDeepResearch_try_v1_def)
qed

theorem single_object_normalization_witness:
  "fetchNewsFromAgent_v1 (\<lambda>u. None) (Inr single_object_answer) = [PARSE_FAILED_v1]
   \<and> fetchDeepResearch_v1 (Inr single_object_answer) = [DEEP_UNAVAILABLE_v1]
   \<and> (\<exists>ob. fetchNewsFromAgent_v2 (\<lambda>u. None) (Inr single_object_answer) = [ob]
        \<and> obj_get ob (str ''title'') = Some (JStr (str ''A'')))
   \<and> articles_of_v2 (JObj [(str ''news'', JArr [JNull, JBool True])]) = [JNull, JBool True]
   \<and> articles_of_v2 (JObj [(str ''news'', JStr (str ''x'')), (str ''articles'', JArr [JNull])])
       = [JNull]
   \<and> pick_articles_v1 (JObj [(str ''news'', JStr (str ''x''))]) = Some (JStr (str ''x''))
   \<and> pick_articles_v1 (JObj [(str ''news'', JStr []), (str ''articles'', JArr [])])
       = Some (JArr [])
   \<and> pick_articles_v1 (JObj [(str ''news'', JNum (str ''1e-400'')), (str ''articles'', JArr [])])
       = Some (JArr [])
   \<and> pick_articles_v1 (JObj [(str ''news'', JNum (str ''1''))]) = Some (JNum (str ''1''))"
proof -
  let ?ms = "[(str ''title'', JStr (str ''A''))]"
  note t = single_object_normalization [of ?ms _ _ single_object_answer "\<lambda>u. None"]
  from t [THEN conjunct2, THEN conjunct2, THEN conjunct2, THEN conjunct2, THEN conjunct2,
      THEN conjunct2]
  have p1: "fetchNewsFromAgent_v1 (\<lambda>u. None) (Inr single_object_answer) = [PARSE_FAILED_v1]
      \<and> fetchDeepResearch_v1 (Inr single_object_answer) = [DEEP_UNAVAILABLE_v1]"
    by (simp add: single_object_answer_facts truthy_opt_def)
  from t [THEN conjunct2, THEN conjunct2, THEN conjunct2, THEN conjunct1]
  obtain ob where ob: "fetchNewsFromAgent_v2 (\<lambda>u. None) (Inr single_object_answer) = [ob]"
      "build_article_v2 (\<lambda>u. None) [] (JObj ?ms) 0 = Inr ob"
    by (auto simp: single_object_answer_facts isArray_opt_def)
  from ob(2) have "obj_get ob (str ''title'') = Some (JStr (str ''A''))"
    by (auto simp: build_article_v2_def field_or_def cycled_link_def obj_get_def)
  with ob(1) have p2: "\<exists>ob. fetchNewsFromAgent_v2 (\<lambda>u. None) (Inr single_object_answer) = [ob]
        \<and> obj_get ob (str ''title'') = Some (JStr (str ''A''))"
    by simp
  have p3: "articles_of_v2 (JObj [(str ''news'', JArr [JNull, JBool True])]) = [JNull, JBool True]"
    using single_object_normalization
      [of "[(str ''news'', JArr [JNull, JBool True])]" "[JNull, JBool True]", THEN conjunct1]
    by simp
  have p4: "articles_of_v2 (JObj [(str ''news'', JStr (str ''x'')), (str ''articles'', JArr [JNull])])
       = [JNull]"
    using single_object_normalization
      [of "[(str ''news'', JStr (str ''x'')), (str ''articles'', JArr [JNull])]" _ "[JNull]",
        THEN conjunct2, THEN conjunct1]
    by (simp add: isArray_opt_def)
  have p5: "pick_articles_v1 (JObj [(str ''news'', JStr (str ''x''))]) = Some (JStr (str ''x''))"
    using single_object_normalization
      [of "[(str ''news'', JStr (str ''x''))]" _ _ _ _ "JStr (str ''x'')",
        THEN conjunct2, THEN conjunct2, THEN conjunct2, THEN conjunct2, THEN conjunct1]
    by simp
  have p6: "pick_articles_v1 (JObj [(str ''news'', JStr []), (str ''articles'', JArr [])])
       = Some (JArr [])"
    using single_object_normalization
      [of "[(str ''news'', JStr []), (str ''articles'', JArr [])]" _ _ _ _ "JArr []",
        THEN conjunct2, THEN conjunct2, THEN conjunct2, THEN conjunct2, THEN conjunct2,
        THEN conjunct1]
    by (simp add: truthy_opt_def)
  have p7: "pick_articles_v1 (JObj [(str ''news'', JNum (str ''1e-400'')), (str ''articles'', JArr [])])
       = Some (JArr [])"
    using single_object_normalization
      [of "[(str ''news'', JNum (str ''1e-400'')), (str ''articles'', JArr [])]" _ _ _ _ "JArr []",
        THEN conjunct2, THEN conjunct2, THEN conjunct2, THEN conjunct2, THEN conjunct2,
        THEN conjunct1]
    by (simp add: truthy_opt_def number_defs)
  have p8: "pick_articles_v1 (JObj [(str ''news'', JNum (str ''1''))]) = Some (JNum (str ''1''))"
    using single_object_normalization
      [of "[(str ''news'', JNum (str ''1''))]" _ _ _ _ "JNum (str ''1'')",
        THEN conjunct2, THEN conjunct2, THEN conjunct2, THEN conjunct2, THEN conjunct1]
    by (simp add: number_defs)
  from p1 p2 p3 p4 p5 p6 p7 p8 show ?thesis by blast
qed

text \<open>
  Against claim C6 as stated: the revision with sequential extraction does not wrap
  the object \<^verbatim>\<open>{"title":"A"}\<close>; it returns the placeholder.
\<close>

theorem single_object_counterexample:
  "fetchNewsFromAgent_v1 (\<lambda>u. None) (Inr single_object_answer) = [PARSE_FAILED_v1]
   \<and> obj_get PARSE_FAILED_v1 (str ''title'') \<noteq> Some (JStr (str ''A''))
   \<and> extractJson_v1 (text_of single_object_answer) = JObj [(str ''title'', JStr (str ''A''))]"
  by (simp add: single_object_answer_facts fetchNewsFromAgent_v1_def
      fetchNewsFromAgent_try_v1_def pick_articles_v1_def truthy_opt_def PARSE_FAILED_v1_def
      article4_def obj_get_def)

subsection \<open>The required fields\<close>

lemma build_article_v2_fields:
  assumes "build_article_v2 hostname links a i = Inr ob"
  shows "obj_get ob (str ''title'') \<noteq> None \<and> obj_get ob (str ''summary'') \<noteq> None
    \<and> obj_get ob (str ''category'') \<noteq> None \<and> obj_get ob (str ''publishedAt'') \<noteq> None"
  using assms
  by (auto simp: build_article_v2_def Let_def obj_get_def split: sum.splits)

text \<open>\<^verbatim>\<open>fetchNewsFromAgent\<close> of the revision with object extraction does keep the
  invariant of claim C4, whatever the service answers.\<close>

lemma fetchNewsFromAgent_v2_fields:
  assumes "ob \<in> set (fetchNewsFromAgent_v2 hostname answer)"
  shows "obj_get ob (str ''title'') \<noteq> None \<and> obj_get ob (str ''summary'') \<noteq> None
    \<and> obj_get ob (str ''category'') \<noteq> None \<and> obj_get ob (str ''publishedAt'') \<noteq> None"
proof (cases "fetchNewsFromAgent_try_v2 hostname answer")
  case (Inl e)
  with assms have "ob = NEWS_FAILED_v2" by (simp add: fetchNewsFromAgent_v2_def)
  then show ?thesis by (simp add: NEWS_FAILED_v2_def article4_def obj_get_def)
next
  case (Inr rs)
  with assms have m: "ob \<in> set rs" by (simp add: fetchNewsFromAgent_v2_def)
  from Inr obtain r where r: "answer = Inr r"
    by (cases answer) (auto simp: fetchNewsFromAgent_try_v2_def)
  let ?xs = "articles_of_v2 (extractJson_v2 (text_of r))"
  from Inr r have j: "js_map (build_article_v2 hostname (validLinks r)) (JArr ?xs) = Inr rs"
    by (simp add: fetchNewsFromAgent_try_v2_def)
  from m obtain i where i: "i < length rs" "rs ! i = ob" by (auto simp: in_set_conv_nth)
  with js_map_Inr_nth [OF j]
  have "build_article_v2 hostname (validLinks r) (?xs ! i) i = Inr ob" by auto
  then show ?thesis by (rule build_article_v2_fields)
qed

text \<open>
  Claim C4 at the answer \<^verbatim>\<open>[{"title":"A"}]\<close>: \<^verbatim>\<open>fetchDeepResearch\<close> of both revisions
  and \<^verbatim>\<open>fetchNewsFromAgent\<close> of the revision with sequential extraction return a
  record whose \<^verbatim>\<open>summary\<close>, \<^verbatim>\<open>category\<close> and \<^verbatim>\<open>publishedAt\<close> are \<^verbatim>\<open>undefined\<close>; only
  \<^verbatim>\<open>fetchNewsFromAgent\<close> of the revision with object extraction fills them.
\<close>

theorem required_fields_missing:
  "map (obj_get (hd (fetchDeepResearch_v2 (Inr title_only_answer))))
      [str ''title'', str ''summary'', str ''category'', str ''publishedAt'']
     = [Some (JStr (str ''A'')), None, None, None]
   \<and> map (obj_get (hd (fetchDeepResearch_v1 (Inr title_only_answer))))
      [str ''title'', str ''summary'', str ''category'', str ''publishedAt'']
     = [Some (JStr (str ''A'')), None, None, None]
   \<and> map (obj_get (hd (fetchNewsFromAgent_v1 (\<lambda>u. None) (Inr title_only_answer))))
      [str ''title'', str ''summary'', str ''category'', str ''publishedAt'']
     = [Some (JStr (str ''A'')), None, None, None]
   \<and> map (obj_get (hd (fetchNewsFromAgent_v2 (\<lambda>u. None) (Inr title_only_answer))))
      [str ''title'', str ''summary'', str ''category'', str ''publishedAt'']
     = [Some (JStr (str ''A'')), Some (JStr []), Some (JStr (str ''General'')),
        Some (JStr RECENTLY)]"
  by (simp add: title_only_answer_def fetch_defs eval_defs suffix_to_prefix)

subsection \<open>The scan state\<close>

lemma isScanning_settle_v1 [simp]:
  "\<not> isScanning (agentState (updateNews_settle_v1 outcome now st))"
  by (simp add: updateNews_settle_v1_def split: sum.splits)

lemma isScanning_settle_v2 [simp]:
  "\<not> isScanning (agentState (updateNews_settle_v2 outcome now st))"
  by (simp add: updateNews_settle_v2_def split: sum.splits)

text \<open>The text-search path does keep the guarantee of claim C9: however the fetch
  settles, a fetch cycle ends with the flag reset.\<close>

lemma updateNews_resets_scanning:
  "\<not> isScanning (agentState (updateNews_v1 topic d outcome now st))"
  "\<not> isScanning (agentState (updateNews_v2 topic d outcome now st))"
  by (simp_all add: updateNews_v1_def updateNews_v2_def)

text \<open>So does the image path when the analysis succeeds or the read cannot be
  started.\<close>

lemma handleImageUpload_resets_scanning:
  "\<not> isScanning (agentState (handleImageUpload_v1 analyzeImage ReadThrows now st))"
  "\<not> isScanning (agentState (handleImageUpload_v2 analyzeImage ReadThrows now st))"
  "analyzeImage (base64_part r) = Inr article \<Longrightarrow>
     \<not> isScanning (agentState (handleImageUpload_v1 analyzeImage (ReadEnds (Some r)) now st))"
  "analyzeImage (base64_part r) = Inr article \<Longrightarrow>
     \<not> isScanning (agentState (handleImageUpload_v2 analyzeImage (ReadEnds (Some r)) now st))"
  by (simp_all add: handleImageUpload_v1_def handleImageUpload_v2_def Let_def)

text \<open>
  Claim C9 on the image path: when \<^verbatim>\<open>analyzeImage\<close> rejects (it rethrows what it
  catches), or when the reader ends without a string, the flag set at the start of
  \<^verbatim>\<open>handleImageUpload\<close> is still set afterwards, in both revisions and from every
  state.
\<close>

theorem image_upload_stays_scanning:
  "isScanning (agentState (handleImageUpload_v1 (\<lambda>d. Inl Rejected) (ReadEnds (Some r)) now st))
   \<and> isScanning (agentState (handleImageUpload_v2 (\<lambda>d. Inl Rejected) (ReadEnds (Some r)) now st'))
   \<and> isScanning (agentState (handleImageUpload_v1 analyzeImage (ReadEnds None) now st))
   \<and> isScanning (agentState (handleImageUpload_v2 analyzeImage (ReadEnds None) now st'))"
  by (simp add: handleImageUpload_v1_def handleImageUpload_v2_def Let_def)

subsection \<open>The refresh timer\<close>

lemma fetchCalls_start_v1 [simp]:
  "fetchCalls (updateNews_start_v1 topic d st) = fetchCalls st @ [(topic, d)]"
  by (simp add: updateNews_start_v1_def Let_def)

lemma fetchCalls_start_v2 [simp]:
  "fetchCalls (updateNews_start_v2 topic d st) = fetchCalls st @ [(topic, d)]"
  by (simp add: updateNews_start_v2_def Let_def)

lemma isScanning_start [simp]:
  "isScanning (agentState (updateNews_start_v1 topic d st))"
  "isScanning (agentState (updateNews_start_v2 topic d st))"
  by (simp_all add: updateNews_start_v1_def updateNews_start_v2_def Let_def)

lemma currentTopic_start [simp]:
  "currentTopic (updateNews_start_v1 topic d st) = topic"
  "currentTopic (updateNews_start_v2 topic d st) = topic"
  by (simp_all add: updateNews_start_v1_def updateNews_start_v2_def Let_def)

lemma settle_keeps_v1 [simp]:
  "fetchCalls (updateNews_settle_v1 outcome now st) = fetchCalls st"
  "currentTopic (updateNews_settle_v1 outcome now st) = currentTopic st"
  "isAutoRefresh (updateNews_settle_v1 outcome now st1) = isAutoRefresh st1"
  by (simp_all add: updateNews_settle_v1_def split: sum.splits)

lemma settle_keeps_v2 [simp]:
  "fetchCalls (updateNews_settle_v2 outcome now st) = fetchCalls st"
  "currentTopic (updateNews_settle_v2 outcome now st) = currentTopic st"
  "refreshMode (updateNews_settle_v2 outcome now st2) = refreshMode st2"
  by (simp_all add: updateNews_settle_v2_def split: sum.splits)

lemma start_keeps_mode [simp]:
  "isAutoRefresh (updateNews_start_v1 topic d st1) = isAutoRefresh st1"
  "refreshMode (updateNews_start_v2 topic d st2) = refreshMode st2"
  by (simp_all add: updateNews_start_v1_def updateNews_start_v2_def Let_def)



lemma image_upload_keeps_v1 [simp]:
  "fetchCalls (handleImageUpload_v1 analyzeImage reading now st) = fetchCalls st"
  "currentTopic (handleImageUpload_v1 analyzeImage reading now st) = currentTopic st"
  "isAutoRefresh (handleImageUpload_v1 analyzeImage reading now st1) = isAutoRefresh st1"
  by (simp_all add: handleImageUpload_v1_def Let_def
      split: read_outcome.splits option.splits sum.splits)

lemma image_upload_keeps_v2 [simp]:
  "fetchCalls (handleImageUpload_v2 analyzeImage reading now st) = fetchCalls st"
  "currentTopic (handleImageUpload_v2 analyzeImage reading now st) = currentTopic st"
  "refreshMode (handleImageUpload_v2 analyzeImage reading now st2) = refreshMode st2"
  by (simp_all add: handleImageUpload_v2_def Let_def
      split: read_outcome.splits option.splits sum.splits)






subsection \<open>Malformed answers\<close>

lemma js_map_empty: "js_map f v = Inr [] \<longleftrightarrow> v = JArr []"
proof
  assume a: "js_map f v = Inr []"
  then obtain xs where v: "v = JArr xs" by (cases v) auto
  with a js_map_Inr_nth [of f xs "[]"] show "v = JArr []" by simp
next
  assume "v = JArr []"
  then show "js_map f v = Inr []" by simp
qed

text \<open>
  Claim C1, as the code has it. \<^verbatim>\<open>extractJson\<close> returns \<^verbatim>\<open>null\<close> when every step
  fails, in both revisions. On \<^verbatim>\<open>null\<close> the fetch functions of the revision with
  sequential extraction return their one placeholder record, and the fetch functions
  of the revision with object extraction return the empty sequence. Whatever is
  thrown inside \<^verbatim>\<open>fetchNewsFromAgent\<close> or \<^verbatim>\<open>fetchDeepResearch\<close>, of either revision,
  is caught and answered with the one placeholder record of that function. The result
  of \<^verbatim>\<open>fetchNewsFromAgent\<close> is empty exactly when the service answered and, in the
  revision with sequential extraction, the normalised value is the empty array, in
  the revision with object extraction, the normalisation gives no article.
\<close>

theorem malformed_answer_fallback:
  "(text = [] \<or> (JSON_parse (cleanedText_v1 text) = None
        \<and> parse_between LBRACKET RBRACKET (cleanedText_v1 text) = None
        \<and> sequential_objects (cleanedText_v1 text) = [])
      \<longrightarrow> extractJson_v1 text = JNull)
   \<and> (text = [] \<or> (JSON_parse (cleaned_v2 text) = None
        \<and> parse_between LBRACKET RBRACKET (cleaned_v2 text) = None
        \<and> parse_between LBRACE RBRACE (cleaned_v2 text) = None)
      \<longrightarrow> extractJson_v2 text = JNull)
   \<and> (extractJson_v1 (text_of r) = JNull \<longrightarrow>
        fetchNewsFromAgent_v1 hostname (Inr r) = [PARSE_FAILED_v1]
        \<and> fetchDeepResearch_v1 (Inr r) = [DEEP_UNAVAILABLE_v1])
   \<and> (extractJson_v2 (text_of r) = JNull \<longrightarrow>
        fetchNewsFromAgent_v2 hostname (Inr r) = [] \<and> fetchDeepResearch_v2 (Inr r) = [])
   \<and> (fetchNewsFromAgent_try_v1 hostname answer = Inl e \<longrightarrow>
        fetchNewsFromAgent_v1 hostname answer = [COMM_FAILED_v1])
   \<and> (fetchNewsFromAgent_try_v2 hostname answer = Inl e \<longrightarrow>
        fetchNewsFromAgent_v2 hostname answer = [NEWS_FAILED_v2])
   \<and> (fetchDeepResearch_try_v1 answer = Inl e \<longrightarrow> fetchDeepResearch_v1 answer = [DEEP_FAILED_v1])
   \<and> (fetchDeepResearch_try_v2 answer = Inl e \<longrightarrow> fetchDeepResearch_v2 answer = [DEEP_FAILED_v2])
   \<and> (fetchNewsFromAgent_v1 hostname answer = [] \<longleftrightarrow>
        (\<exists>r'. answer = Inr r' \<and> pick_articles_v1 (extractJson_v1 (text_of r')) = Some (JArr [])))
   \<and> (fetchNewsFromAgent_v2 hostname answer = [] \<longleftrightarrow>
        (\<exists>r'. answer = Inr r' \<and> articles_of_v2 (extractJson_v2 (text_of r')) = []))"
proof (intro conjI impI)
  assume "text = [] \<or> (JSON_parse (cleanedText_v1 text) = None
        \<and> parse_between LBRACKET RBRACKET (cleanedText_v1 text) = None
        \<and> sequential_objects (cleanedText_v1 text) = [])"
  then show "extractJson_v1 text = JNull"
    by (auto simp: extractJson_v1_def Let_def)
next
  assume "text = [] \<or> (JSON_parse (cleaned_v2 text) = None
        \<and> parse_between LBRACKET RBRACKET (cleaned_v2 text) = None
        \<and> parse_between LBRACE RBRACE (cleaned_v2 text) = None)"
  then show "extractJson_v2 text = JNull"
    by (auto simp: extractJson_v2_def Let_def)
next
  assume a: "extractJson_v1 (text_of r) = JNull"
  then have "pick_articles_v1 (extractJson_v1 (text_of r)) = None"
    by (simp add: pick_articles_v1_def)
  then show "fetchNewsFromAgent_v1 hostname (Inr r) = [PARSE_FAILED_v1]"
    and "fetchDeepResearch_v1 (Inr r) = [DEEP_UNAVAILABLE_v1]"
    by (simp_all add: fetchNewsFromAgent_v1_def fetchNewsFromAgent_try_v1_def
        fetchDeepResearch_v1_def fetchDeepResearch_try_v1_def)
next
  assume "extractJson_v2 (text_of r) = JNull"
  then show "fetchNewsFromAgent_v2 hostname (Inr r) = []"
    and "fetchDeepResearch_v2 (Inr r) = []"
    by (simp_all add: fetchNewsFromAgent_v2_def fetchNewsFromAgent_try_v2_def articles_of_v2_def
        fetchDeepResearch_v2_def fetchDeepResearch_try_v2_def deep_articles_v2_def)
next
  assume "fetchNewsFromAgent_try_v1 hostname answer = Inl e"
  then show "fetchNewsFromAgent_v1 hostname answer = [COMM_FAILED_v1]"
    by (simp add: fetchNewsFromAgent_v1_def)
next
  assume "fetchNewsFromAgent_try_v2 hostname answer = Inl e"
  then show "fetchNewsFromAgent_v2 hostname answer = [NEWS_FAILED_v2]"
    by (simp add: fetchNewsFromAgent_v2_def)
next
  assume "fetchDeepResearch_try_v1 answer = Inl e"
  then show "fetchDeepResearch_v1 answer = [DEEP_FAILED_v1]"
    by (simp add: fetchDeepResearch_v1_def)
next
  assume "fetchDeepResearch_try_v2 answer = Inl e"
  then show "fetchDeepResearch_v2 answer = [DEEP_FAILED_v2]"
    by (simp add: fetchDeepResearch_v2_def)
next
  show "fetchNewsFromAgent_v1 hostname answer = [] \<longleftrightarrow>
        (\<exists>r'. answer = Inr r' \<and> pick_articles_v1 (extractJson_v1 (text_of r')) = Some (JArr []))"
  proof (cases answer)
    case (Inl e)
    then show ?thesis
      by (simp add: fetchNewsFromAgent_v1_def fetchNewsFromAgent_try_v1_def)
  next
    case (Inr r')
    show ?thesis
    proof (cases "pick_articles_v1 (extractJson_v1 (text_of r'))")
      case None
      with Inr show ?thesis
        by (simp add: fetchNewsFromAgent_v1_def fetchNewsFromAgent_try_v1_def)
    next
      case (Some arts)
      let ?m = "js_map (attach_link_v1 hostname (validLinks r')) arts"
      from Inr Some have f: "fetchNewsFromAgent_try_v1 hostname answer = ?m"
        by (simp add: fetchNewsFromAgent_try_v1_def)
      have "fetchNewsFromAgent_v1 hostname answer = [] \<longleftrightarrow> ?m = Inr []"
        unfolding fetchNewsFromAgent_v1_def f by (cases ?m) auto
      with Inr Some show ?thesis by (simp add: js_map_empty)
    qed
  qed
next
  show "fetchNewsFromAgent_v2 hostname answer = [] \<longleftrightarrow>
        (\<exists>r'. answer = Inr r' \<and> articles_of_v2 (extractJson_v2 (text_of r')) = [])"
  proof (cases answer)
    case (Inl e)
    then show ?thesis
      by (simp add: fetchNewsFromAgent_v2_def fetchNewsFromAgent_try_v2_def)
  next
    case (Inr r')
    let ?m = "js_map (build_article_v2 hostname (validLinks r'))
      (JArr (articles_of_v2 (extractJson_v2 (text_of r'))))"
    from Inr have f: "fetchNewsFromAgent_try_v2 hostname answer = ?m"
      by (simp add: fetchNewsFromAgent_try_v2_def)
    have "fetchNewsFromAgent_v2 hostname answer = [] \<longleftrightarrow> ?m = Inr []"
      unfolding fetchNewsFromAgent_v2_def f by (cases ?m) auto
    with Inr show ?thesis by (simp only: js_map_empty) simp
  qed
qed

theorem malformed_answer_fallback_witness:
  "extractJson_v1 (text_of malformed_answer) = JNull
   \<and> extractJson_v2 (text_of malformed_answer) = JNull
   \<and> fetchNewsFromAgent_v1 (\<lambda>u. None) (Inr malformed_answer) = [PARSE_FAILED_v1]
   \<and> fetchDeepResearch_v1 (Inr malformed_answer) = [DEEP_UNAVAILABLE_v1]
   \<and> fetchNewsFromAgent_v2 (\<lambda>u. None) (Inr malformed_answer) = []
   \<and> fetchDeepResearch_v2 (Inr malformed_answer) = []
   \<and> fetchNewsFromAgent_v1 (\<lambda>u. None) (Inl Rejected) = [COMM_FAILED_v1]
   \<and> fetchNewsFromAgent_v2 (\<lambda>u. None) (Inl Rejected) = [NEWS_FAILED_v2]
   \<and> fetchDeepResearch_v1 (Inl Rejected) = [DEEP_FAILED_v1]
   \<and> fetchDeepResearch_v2 (Inl Rejected) = [DEEP_FAILED_v2]
   \<and> fetchNewsFromAgent_v1 (\<lambda>u. None) (Inr empty_array_answer) = []
   \<and> fetchNewsFromAgent_v1 (\<lambda>u. None) (Inr underflow_answer) = []
   \<and> fetchNewsFromAgent_v2 (\<lambda>u. None) (Inr empty_array_answer) = []"
proof -
  let ?t = "text_of malformed_answer"
  have s: "?t \<noteq> []" "JSON_parse (cleanedText_v1 ?t) = None"
    "parse_between LBRACKET RBRACKET (cleanedText_v1 ?t) = None"
    "sequential_objects (cleanedText_v1 ?t) = []"
    "JSON_parse (cleaned_v2 ?t) = None"
    "parse_between LBRACKET RBRACKET (cleaned_v2 ?t) = None"
    "parse_between LBRACE RBRACE (cleaned_v2 ?t) = None"
    by (simp_all add: malformed_answer_def text_of_def eval_defs)
  note t = malformed_answer_fallback [of ?t malformed_answer "\<lambda>u. None"]
  note k = conjunct2 [THEN conjunct2, THEN conjunct2, THEN conjunct2]
  from t [of "Inl Rejected" Rejected, THEN conjunct1] s
  have n1: "extractJson_v1 ?t = JNull" by simp
  from t [of "Inl Rejected" Rejected, THEN conjunct2, THEN conjunct1] s
  have n2: "extractJson_v2 ?t = JNull" by simp
  from t [of "Inl Rejected" Rejected, THEN conjunct2, THEN conjunct2, THEN conjunct1] n1
  have p1: "fetchNewsFromAgent_v1 (\<lambda>u. None) (Inr malformed_answer) = [PARSE_FAILED_v1]
      \<and> fetchDeepResearch_v1 (Inr malformed_answer) = [DEEP_UNAVAILABLE_v1]"
    by simp
  from t [of "Inl Rejected" Rejected, THEN conjunct2, THEN conjunct2, THEN conjunct2,
      THEN conjunct1] n2
  have p2: "fetchNewsFromAgent_v2 (\<lambda>u. None) (Inr malformed_answer) = []
      \<and> fetchDeepResearch_v2 (Inr malformed_answer) = []"
    by simp
  from t [of "Inl Rejected" Rejected, THEN k, THEN conjunct1]
  have p3: "fetchNewsFromAgent_v1 (\<lambda>u. None) (Inl Rejected) = [COMM_FAILED_v1]"
    by (simp add: fetchNewsFromAgent_try_v1_def)
  from t [of "Inl Rejected" Rejected, THEN k, THEN conjunct2, THEN conjunct1]
  have p4: "fetchNewsFromAgent_v2 (\<lambda>u. None) (Inl Rejected) = [NEWS_FAILED_v2]"
    by (simp add: fetchNewsFromAgent_try_v2_def)
  from t [of "Inl Rejected" Rejected, THEN k, THEN conjunct2, THEN conjunct2, THEN conjunct1]
  have p5: "fetchDeepResearch_v1 (Inl Rejected) = [DEEP_FAILED_v1]"
    by (simp add: fetchDeepResearch_try_v1_def)
  from t [of "Inl Rejected" Rejected, THEN k, THEN conjunct2, THEN conjunct2, THEN conjunct2,
      THEN conjunct1]
  have p6: "fetchDeepResearch_v2 (Inl Rejected) = [DEEP_FAILED_v2]"
    by (simp add: fetchDeepResearch_try_v2_def)
  have e: "pick_articles_v1 (extractJson_v1 (text_of empty_array_answer)) = Some (JArr [])"
    by (simp add: empty_array_answer_def text_of_def pick_articles_v1_def eval_defs)
  from t [of "Inr empty_array_answer" Rejected, THEN k, THEN k, THEN conjunct1] e
  have p7: "fetchNewsFromAgent_v1 (\<lambda>u. None) (Inr empty_array_answer) = []" by blast
  have u: "pick_articles_v1 (extractJson_v1 (text_of underflow_answer)) = Some (JArr [])"
    by (simp add: underflow_answer_facts(1) pick_articles_v1_def truthy_opt_def number_defs)
  from t [of "Inr underflow_answer" Rejected, THEN k, THEN k, THEN conjunct1] u
  have p8: "fetchNewsFromAgent_v1 (\<lambda>u. None) (Inr underflow_answer) = []" by blast
  have e2: "articles_of_v2 (extractJson_v2 (text_of empty_array_answer)) = []"
    by (simp add: empty_array_answer_def text_of_def articles_of_v2_def eval_defs)
  from t [of "Inr empty_array_answer" Rejected, THEN k, THEN k, THEN conjunct2] e2
  have p9: "fetchNewsFromAgent_v2 (\<lambda>u. None) (Inr empty_array_answer) = []" by blast
  from n1 n2 p1 p2 p3 p4 p5 p6 p7 p8 p9 show ?thesis by simp
qed

text \<open>
  Against claim C1 as stated: the answer \<^verbatim>\<open>[]\<close> parses, so no placeholder is put in
  and the returned sequence is empty; and on an answer that no step can read,
  \<^verbatim>\<open>fetchNewsFromAgent\<close> of the revision with object extraction returns the empty
  sequence, not a placeholder.
\<close>

theorem malformed_answer_counterexample:
  "fetchNewsFromAgent_v1 (\<lambda>u. None) (Inr empty_array_answer) = []
   \<and> fetchDeepResearch_v1 (Inr empty_array_answer) = []
   \<and> fetchNewsFromAgent_v2 (\<lambda>u. None) (Inr malformed_answer) = []"
  by (simp add: empty_array_answer_def malformed_answer_def fetch_defs eval_defs)

subsection \<open>An array inside prose\<close>

text \<open>The text \<open>s\<close> holds \<open>arr\<close> with no opening bracket before it and no closing
  bracket after it.\<close>

definition array_in_prose :: "jstring \<Rightarrow> jstring \<Rightarrow> bool" where
  "array_in_prose arr s \<longleftrightarrow>
     (\<exists>p q. s = p @ arr @ q \<and> LBRACKET \<notin> set p \<and> RBRACKET \<notin> set q)"

lemma dropWhile_before:
  "\<not> P a \<Longrightarrow> dropWhile P (p @ a # r) = dropWhile P p @ a # r"
  by (induction p) auto

lemma not_ws_brackets [simp]: "\<not> isWs LBRACKET" "\<not> isWs RBRACKET" "\<not> isWs BACKTICK"
  by (simp_all add: isWs_def)

lemma array_in_prose_ltrim:
  assumes "array_in_prose (LBRACKET # m) s"
  shows "array_in_prose (LBRACKET # m) (ltrim s)"
proof -
  from assms obtain p q where s: "s = p @ (LBRACKET # m) @ q"
    and p: "LBRACKET \<notin> set p" and q: "RBRACKET \<notin> set q"
    by (auto simp: array_in_prose_def)
  have "ltrim s = dropWhile isWs p @ (LBRACKET # m) @ q"
    unfolding s ltrim_def by (simp add: dropWhile_before)
  moreover have "LBRACKET \<notin> set (dropWhile isWs p)"
    using p set_dropWhileD by fastforce
  ultimately show ?thesis using q unfolding array_in_prose_def by blast
qed

lemma array_in_prose_rtrim:
  assumes "array_in_prose (m @ [RBRACKET]) s"
  shows "array_in_prose (m @ [RBRACKET]) (rtrim s)"
proof -
  from assms obtain p q where s: "s = p @ (m @ [RBRACKET]) @ q"
    and p: "LBRACKET \<notin> set p" and q: "RBRACKET \<notin> set q"
    by (auto simp: array_in_prose_def)
  have "rev s = rev q @ RBRACKET # (rev m @ rev p)" unfolding s by simp
  then have "dropWhile isWs (rev s) = dropWhile isWs (rev q) @ RBRACKET # (rev m @ rev p)"
    by (simp add: dropWhile_before)
  then have "rtrim s = p @ (m @ [RBRACKET]) @ rev (dropWhile isWs (rev q))"
    unfolding rtrim_def by simp
  moreover have "RBRACKET \<notin> set (rev (dropWhile isWs (rev q)))"
    using q set_dropWhileD by fastforce
  ultimately show ?thesis using p unfolding array_in_prose_def by blast
qed


lemma array_in_prose_drop_prefix:
  assumes "s = p @ arr @ q" and "LBRACKET \<notin> set p" and "RBRACKET \<notin> set q" and "n \<le> length p"
  shows "array_in_prose arr (drop n s)"
proof -
  have "drop n s = drop n p @ arr @ q" using assms(1,4) by simp
  moreover have "LBRACKET \<notin> set (drop n p)" using assms(2) by (meson in_set_dropD)
  ultimately show ?thesis using assms(3) unfolding array_in_prose_def by blast
qed

lemma json_tag_needs_four:
  assumes "json_tag_ci (p @ LBRACKET # r)"
  shows "4 \<le> length p"
proof (rule ccontr)
  assume "\<not> 4 \<le> length p"
  then have "length p < 4" by simp
  then consider "p = []" | a where "p = [a]" | a b where "p = [a, b]"
    | a b c where "p = [a, b, c]"
    by (cases p; cases "tl p"; cases "tl (tl p)"; cases "tl (tl (tl p))") auto
  then show False
    using assms by cases (auto simp: json_tag_ci_def split: list.splits)
qed

lemma fence_needs_three:
  assumes "prefix FENCE (p @ LBRACKET # r)"
  shows "3 \<le> length p"
proof (rule ccontr)
  assume "\<not> 3 \<le> length p"
  then have "length p < 3" by simp
  then consider "p = []" | a where "p = [a]" | a b where "p = [a, b]"
    by (cases p; cases "tl p"; cases "tl (tl p)") auto
  then show False
    using assms by cases auto
qed

lemma array_in_prose_strip_json_word:
  assumes "array_in_prose (LBRACKET # m) s"
  shows "array_in_prose (LBRACKET # m) (strip_json_word s)"
proof (cases "json_tag_ci s")
  case False
  with assms show ?thesis by (simp add: strip_json_word_def)
next
  case True
  from assms obtain p q where s: "s = p @ (LBRACKET # m) @ q"
    and p: "LBRACKET \<notin> set p" and q: "RBRACKET \<notin> set q"
    by (auto simp: array_in_prose_def)
  from True s have "4 \<le> length p" using json_tag_needs_four [of p "m @ q"] by simp
  from array_in_prose_drop_prefix [OF s p q this]
  have "array_in_prose (LBRACKET # m) (ltrim (drop 4 s))" by (rule array_in_prose_ltrim)
  with True show ?thesis by (simp add: strip_json_word_def)
qed

lemma array_in_prose_strip_fence_open:
  assumes "array_in_prose (LBRACKET # m) s"
  shows "array_in_prose (LBRACKET # m) (strip_fence_open s)"
proof (cases "prefix FENCE s")
  case False
  with assms show ?thesis by (simp add: strip_fence_open_def)
next
  case True
  from assms obtain p q where s: "s = p @ (LBRACKET # m) @ q"
    and p: "LBRACKET \<notin> set p" and q: "RBRACKET \<notin> set q"
    by (auto simp: array_in_prose_def)
  from True s have "3 \<le> length p" using fence_needs_three [of p "m @ q"] by simp
  from array_in_prose_drop_prefix [OF s p q this]
  have a: "array_in_prose (LBRACKET # m) (drop 3 s)" .
  show ?thesis
  proof (cases "json_tag_ci (drop 3 s)")
    case False
    with True a show ?thesis
      by (simp add: strip_fence_open_def array_in_prose_ltrim)
  next
    case tag: True
    from a obtain p' q' where s': "drop 3 s = p' @ (LBRACKET # m) @ q'"
      and p': "LBRACKET \<notin> set p'" and q': "RBRACKET \<notin> set q'"
      by (auto simp: array_in_prose_def)
    from tag s' have "4 \<le> length p'" using json_tag_needs_four [of p' "m @ q'"] by simp
    from array_in_prose_drop_prefix [OF s' p' q' this]
    have "array_in_prose (LBRACKET # m) (ltrim (drop 4 (drop 3 s)))"
      by (rule array_in_prose_ltrim)
    with True tag show ?thesis by (simp add: strip_fence_open_def)
  qed
qed

lemma suffix_fence_needs_three:
  assumes "suffix FENCE (r @ RBRACKET # q)"
  shows "3 \<le> length q"
proof -
  from assms have "prefix (rev FENCE) (rev q @ RBRACKET # rev r)"
    by (simp add: suffix_to_prefix)
  then have "prefix FENCE (rev q @ RBRACKET # rev r)" by simp
  have "\<not> length (rev q) < 3"
  proof
    assume "length (rev q) < 3"
    then consider "rev q = []" | a where "rev q = [a]" | a b where "rev q = [a, b]"
      by (cases "rev q"; cases "tl (rev q)"; cases "tl (tl (rev q))") auto
    then show False
      using \<open>prefix FENCE (rev q @ RBRACKET # rev r)\<close> by cases auto
  qed
  then show ?thesis by simp
qed

lemma take_all_but:
  assumes "n \<le> length q"
  shows "take (length (a @ q) - n) (a @ q) = a @ take (length q - n) q"
proof -
  have "length (a @ q) - n = length a + (length q - n)" using assms by simp
  then show ?thesis by (simp only: take_append) simp
qed

lemma array_in_prose_strip_fence_close:
  assumes "array_in_prose (m @ [RBRACKET]) s"
  shows "array_in_prose (m @ [RBRACKET]) (strip_fence_close s)"
proof (cases "ends_with s FENCE")
  case False
  with assms show ?thesis by (simp add: strip_fence_close_def)
next
  case True
  from assms obtain p q where s: "s = p @ (m @ [RBRACKET]) @ q"
    and p: "LBRACKET \<notin> set p" and q: "RBRACKET \<notin> set q"
    by (auto simp: array_in_prose_def)
  from True s have "3 \<le> length q"
    using suffix_fence_needs_three [of "p @ m" q] by (simp add: ends_with_def)
  then have "take (length s - 3) s = p @ (m @ [RBRACKET]) @ take (length q - 3) q"
    unfolding s using take_all_but [of 3 q "p @ m @ [RBRACKET]"] by simp
  moreover have "RBRACKET \<notin> set (take (length q - 3) q)"
    using q by (meson in_set_takeD)
  ultimately have "array_in_prose (m @ [RBRACKET]) (take (length s - 3) s)"
    using p unfolding array_in_prose_def by blast
  then have "array_in_prose (m @ [RBRACKET]) (rtrim (take (length s - 3) s))"
    by (rule array_in_prose_rtrim)
  with True show ?thesis by (simp add: strip_fence_close_def)
qed

lemma indexOf_first: "c \<notin> set p \<Longrightarrow> indexOf (p @ c # r) c = Some (length p)"
  by (induction p) auto

lemma parse_between_array_in_prose:
  assumes "array_in_prose (LBRACKET # m @ [RBRACKET]) s"
  shows "parse_between LBRACKET RBRACKET s = JSON_parse (LBRACKET # m @ [RBRACKET])"
proof -
  let ?arr = "LBRACKET # m @ [RBRACKET]"
  from assms obtain p q where s: "s = p @ ?arr @ q"
    and p: "LBRACKET \<notin> set p" and q: "RBRACKET \<notin> set q"
    by (auto simp: array_in_prose_def)
  have f: "indexOf s LBRACKET = Some (length p)"
    unfolding s using indexOf_first [OF p] by simp
  have "rev s = rev q @ RBRACKET # (rev m @ LBRACKET # rev p)" unfolding s by simp
  then have "indexOf (rev s) RBRACKET = Some (length q)"
    using indexOf_first [of RBRACKET "rev q"] q by simp
  then have l: "lastIndexOf s RBRACKET = Some (length p + length m + 1)"
    unfolding lastIndexOf_def by (simp add: s)
  have "substring s (length p) (length p + length m + 1 + 1) = ?arr"
    unfolding substring_def s by (simp add: Let_def min_def max_def)
  with f l show ?thesis by (simp add: parse_between_def)
qed

text \<open>
  Claim C2, as the code has it. Let the text hold a valid array text from an opening
  to a closing bracket, with no opening bracket before it and no closing bracket
  after it. The revision with object extraction returns what the cleaned text parses
  to as a whole when it does parse, and exactly the array otherwise. The revision
  with sequential extraction does the same when the text holds no code block.
\<close>

theorem array_between_prose:
  assumes "text = pre @ LBRACKET # mid @ RBRACKET # post"
    and "LBRACKET \<notin> set pre" and "RBRACKET \<notin> set post"
    and "JSON_parse (LBRACKET # mid @ [RBRACKET]) = Some v"
  shows "extractJson_v2 text = (case JSON_parse (cleaned_v2 text) of Some w \<Rightarrow> w | None \<Rightarrow> v)
    \<and> (codeBlockMatch (trim text) = None \<longrightarrow>
         extractJson_v1 text
           = (case JSON_parse (cleanedText_v1 text) of Some w \<Rightarrow> w | None \<Rightarrow> v))"
proof -
  let ?arr = "LBRACKET # mid @ [RBRACKET]"
  have ne: "text \<noteq> []" using assms(1) by simp
  have a: "array_in_prose ?arr text"
    unfolding array_in_prose_def using assms(1-3) by (intro exI [of _ pre] exI [of _ post]) simp
  have t: "array_in_prose ?arr (trim text)"
    unfolding trim_def
    using array_in_prose_rtrim [of "LBRACKET # mid"] array_in_prose_ltrim [OF a] by simp
  have "array_in_prose ?arr (cleaned_v2 text)"
    unfolding cleaned_v2_def
    using array_in_prose_strip_fence_close [of "LBRACKET # mid"]
      array_in_prose_strip_fence_open [OF t] by simp
  from parse_between_array_in_prose [OF this] assms(4)
  have "parse_between LBRACKET RBRACKET (cleaned_v2 text) = Some v" by simp
  then have v2: "extractJson_v2 text
      = (case JSON_parse (cleaned_v2 text) of Some w \<Rightarrow> w | None \<Rightarrow> v)"
    using ne by (simp add: extractJson_v2_def Let_def split: option.splits)
  have v1: "extractJson_v1 text
      = (case JSON_parse (cleanedText_v1 text) of Some w \<Rightarrow> w | None \<Rightarrow> v)"
    if n: "codeBlockMatch (trim text) = None"
  proof -
    from n have c: "cleanedText_v1 text = strip_json_word (trim text)"
      by (simp add: cleanedText_v1_def)
    have "array_in_prose ?arr (cleanedText_v1 text)"
      unfolding c by (rule array_in_prose_strip_json_word [OF t])
    from parse_between_array_in_prose [OF this] assms(4)
    have "parse_between LBRACKET RBRACKET (cleanedText_v1 text) = Some v" by simp
    then show ?thesis
      using ne by (simp add: extractJson_v1_def Let_def split: option.splits)
  qed
  from v2 v1 show ?thesis by blast
qed

theorem array_between_prose_witness:
  "extractJson_v2 results_in_prose = JArr [results_record]
   \<and> extractJson_v1 results_in_prose = JArr [results_record]
   \<and> map (\<lambda>ob. obj_get ob (str ''title''))
        (fetchNewsFromAgent_v2 (\<lambda>u. None) (Inr \<lparr>resp_text = Some results_in_prose, resp_chunks = []\<rparr>))
       = [Some (JStr (str ''A''))]
   \<and> map (\<lambda>ob. obj_get ob (str ''title''))
        (fetchNewsFromAgent_v1 (\<lambda>u. None) (Inr \<lparr>resp_text = Some results_in_prose, resp_chunks = []\<rparr>))
       = [Some (JStr (str ''A''))]"
proof -
  let ?pre = "str ''Here are the results: ''"
  let ?mid = "str ''{\"title\":\"A\",\"summary\":\"B\",\"category\":\"Tech\",\"publishedAt\":\"now\"}''"
  let ?post = "str '' Thanks''"
  have h: "results_in_prose = ?pre @ LBRACKET # ?mid @ RBRACKET # ?post"
    "LBRACKET \<notin> set ?pre" "RBRACKET \<notin> set ?post"
    "JSON_parse (LBRACKET # ?mid @ [RBRACKET]) = Some (JArr [results_record])"
    by (simp_all add: results_in_prose_def results_record_def eval_defs)
  have n: "JSON_parse (cleaned_v2 results_in_prose) = None"
    "JSON_parse (cleanedText_v1 results_in_prose) = None"
    "codeBlockMatch (trim results_in_prose) = None"
    by (simp_all add: results_in_prose_def eval_defs)
  from array_between_prose [OF h] n
  have e: "extractJson_v2 results_in_prose = JArr [results_record]"
    "extractJson_v1 results_in_prose = JArr [results_record]"
    by simp_all
  have f2: "map (\<lambda>ob. obj_get ob (str ''title''))
        (fetchNewsFromAgent_v2 (\<lambda>u. None) (Inr \<lparr>resp_text = Some results_in_prose, resp_chunks = []\<rparr>))
       = [Some (JStr (str ''A''))]"
    by (simp add: fetchNewsFromAgent_v2_def fetchNewsFromAgent_try_v2_def text_of_def e
        articles_of_v2_def results_record_def build_article_v2_def field_or_def validLinks_def
        List.map_filter_def cycled_link_def enumerate_eq_zip obj_get_def)
  have f1: "map (\<lambda>ob. obj_get ob (str ''title''))
        (fetchNewsFromAgent_v1 (\<lambda>u. None) (Inr \<lparr>resp_text = Some results_in_prose, resp_chunks = []\<rparr>))
       = [Some (JStr (str ''A''))]"
    by (simp add: fetchNewsFromAgent_v1_def fetchNewsFromAgent_try_v1_def text_of_def e
        pick_articles_v1_def results_record_def attach_link_v1_def validLinks_def
        List.map_filter_def enumerate_eq_zip obj_get_def)
  from e f2 f1 show ?thesis by simp
qed

text \<open>
  Against claim C2 as stated: prose that holds a code block makes the revision with
  sequential extraction parse the inside of the block only, and the array is lost;
  and a text that is valid as a whole is returned as that value, in both revisions.
\<close>

theorem array_between_prose_counterexample:
  "extractJson_v1 (str ''Use ```x``` here: [1]'') = JNull
   \<and> extractJson_v2 (str ''Use ```x``` here: [1]'') = JArr [JNum (str ''1'')]
   \<and> extractJson_v1 (str ''{\"a\":[1]}'') = JObj [(str ''a'', JArr [JNum (str ''1'')])]
   \<and> extractJson_v2 (str ''{\"a\":[1]}'') = JObj [(str ''a'', JArr [JNum (str ''1'')])]"
  by (simp add: eval_defs)

subsection \<open>A fenced payload\<close>

lemma dropWhile_all_iff: "(\<forall>x\<in>set (dropWhile P s). P x) \<longleftrightarrow> (\<forall>x\<in>set s. P x)"
proof
  assume a: "\<forall>x\<in>set (dropWhile P s). P x"
  have "dropWhile P s = []"
  proof (rule ccontr)
    assume n: "dropWhile P s \<noteq> []"
    then have "\<not> P (hd (dropWhile P s))" by (rule hd_dropWhile)
    moreover from n have "hd (dropWhile P s) \<in> set (dropWhile P s)" by simp
    ultimately show False using a by blast
  qed
  then show "\<forall>x\<in>set s. P x" by simp
next
  assume "\<forall>x\<in>set s. P x"
  then show "\<forall>x\<in>set (dropWhile P s). P x" using set_dropWhileD by fastforce
qed

lemma trim_eq_Nil: "trim s = [] \<longleftrightarrow> (\<forall>c\<in>set s. isWs c)"
  by (simp add: trim_def rtrim_def ltrim_def dropWhile_all_iff)

lemma ltrim_not_ws: "\<not> isWs c \<Longrightarrow> ltrim (c # s) = c # s"
  by (simp add: ltrim_def)

lemma rtrim_not_ws: "\<not> isWs c \<Longrightarrow> rtrim (s @ [c]) = s @ [c]"
  by (simp add: rtrim_def)

lemma rtrim_ws: "isWs c \<Longrightarrow> rtrim (s @ [c]) = rtrim s"
  by (simp add: rtrim_def)

lemma ltrim_idem: "ltrim (ltrim s) = ltrim s"
  by (simp add: ltrim_def)

lemma rtrim_idem: "rtrim (rtrim s) = rtrim s"
  by (simp add: rtrim_def)

lemma ltrim_rtrim: "ltrim (rtrim s) = rtrim (ltrim s)"
proof (cases "\<forall>c\<in>set s. isWs c")
  case True
  then have d: "dropWhile isWs s = []" "dropWhile isWs (rev s) = []" by simp_all
  show ?thesis unfolding ltrim_def rtrim_def d by simp
next
  case False
  then obtain a b c where s: "s = a @ c # b" and a: "\<forall>x\<in>set a. isWs x" and c: "\<not> isWs c"
    using split_list_first_prop [of s "\<lambda>x. \<not> isWs x"] by auto
  have l: "ltrim s = c # b" unfolding s ltrim_def using a c by simp
  have "rev s = rev b @ c # rev a" unfolding s by simp
  then have "dropWhile isWs (rev s) = dropWhile isWs (rev b) @ c # rev a"
    using c by (simp add: dropWhile_before)
  then have r: "rtrim s = a @ c # rev (dropWhile isWs (rev b))"
    unfolding rtrim_def by simp
  have "dropWhile isWs (rev (c # b)) = dropWhile isWs (rev b) @ [c]"
    using c dropWhile_before [of isWs c "rev b" "[]"] by simp
  then have "rtrim (c # b) = c # rev (dropWhile isWs (rev b))"
    unfolding rtrim_def by simp
  moreover have "ltrim (a @ c # rev (dropWhile isWs (rev b))) = c # rev (dropWhile isWs (rev b))"
    unfolding ltrim_def using a c by simp
  ultimately show ?thesis unfolding l r by simp
qed

lemma trim_idem: "trim (trim s) = trim s"
proof -
  have "ltrim (rtrim (ltrim s)) = rtrim (ltrim (ltrim s))" by (rule ltrim_rtrim)
  then show ?thesis by (simp only: trim_def ltrim_idem rtrim_idem)
qed

lemma trim_snoc_ws:
  assumes "isWs c"
  shows "trim (s @ [c]) = trim s"
proof -
  have "trim (s @ [c]) = ltrim (rtrim (s @ [c]))"
    unfolding trim_def by (rule ltrim_rtrim [symmetric])
  also have "\<dots> = ltrim (rtrim s)" using assms by (simp only: rtrim_ws)
  also have "\<dots> = trim s" unfolding trim_def by (rule ltrim_rtrim)
  finally show ?thesis .
qed

lemma isWs_newline [simp]: "isWs 10"
  by (simp add: isWs_def)

lemma trim_fenced: "trim (fenced tag payload) = fenced tag payload"
proof -
  have "ltrim (fenced tag payload) = fenced tag payload"
    by (simp add: fenced_def ltrim_def)
  moreover have "rtrim (fenced tag payload) = fenced tag payload"
    using rtrim_not_ws [of BACKTICK "FENCE @ tag @ [10] @ payload @ [10, BACKTICK, BACKTICK]"]
    by (simp add: fenced_def)
  ultimately show ?thesis by (simp add: trim_def)
qed

text \<open>What stands behind the opening delimiter and the tag, and what the white space
  after them leaves of it.\<close>

lemma ltrim_after_tag:
  "ltrim (10 # payload @ [10] @ FENCE) = ltrim (payload @ [10]) @ FENCE"
proof -
  have "dropWhile isWs ((payload @ [10]) @ BACKTICK # [BACKTICK, BACKTICK])
      = dropWhile isWs (payload @ [10]) @ BACKTICK # [BACKTICK, BACKTICK]"
    by (rule dropWhile_before) simp
  then show ?thesis by (simp add: ltrim_def)
qed

lemma rtrim_ltrim_newline: "rtrim (ltrim (payload @ [10])) = trim payload"
  using trim_snoc_ws [of 10 payload] by (simp add: trim_def)

lemma after_fence_tag:
  assumes "tag = [] \<or> tag = str ''json''"
  shows "(if json_tag_ci (tag @ 10 # r) then drop 4 (tag @ 10 # r) else tag @ 10 # r) = 10 # r"
    and "(if prefix (str ''json'') (tag @ 10 # r) then drop 4 (tag @ 10 # r) else tag @ 10 # r)
          = 10 # r"
  using assms by (auto simp: json_tag_ci_def split: list.splits)

lemma cleaned_v2_fenced:
  assumes "tag = [] \<or> tag = str ''json''"
  shows "cleaned_v2 (fenced tag payload) = trim payload"
proof -
  let ?r = "payload @ [10] @ FENCE"
  have d: "drop 3 (fenced tag payload) = tag @ 10 # ?r" by (simp add: fenced_def)
  have "strip_fence_open (fenced tag payload) = ltrim (10 # ?r)"
    unfolding strip_fence_open_def Let_def d after_fence_tag(1) [OF assms]
    by (simp add: fenced_def)
  then have o: "strip_fence_open (fenced tag payload) = ltrim (payload @ [10]) @ FENCE"
    by (simp only: ltrim_after_tag)
  have "suffix FENCE (ltrim (payload @ [10]) @ FENCE)"
    by (rule suffixI) (rule refl)
  then have "strip_fence_close (ltrim (payload @ [10]) @ FENCE) = rtrim (ltrim (payload @ [10]))"
    by (simp add: strip_fence_close_def ends_with_def)
  then show ?thesis
    by (simp only: cleaned_v2_def trim_fenced o rtrim_ltrim_newline)
qed

lemma cleaned_v2_bare:
  assumes "\<not> prefix FENCE (trim payload)" and "\<not> suffix FENCE (trim payload)"
  shows "cleaned_v2 payload = trim payload"
  using assms by (simp add: cleaned_v2_def strip_fence_open_def strip_fence_close_def ends_with_def)

lemma fenced_not_empty: "fenced tag payload \<noteq> []"
  by (simp add: fenced_def)

lemma nothing_in_empty:
  "JSON_parse [] = None" "parse_between a b [] = None" "sequential_objects [] = []"
  by (simp_all add: JSON_parse_def parse_between_def sequential_objects_def
      sequential_loop.simps)

lemma extractJson_v2_fenced:
  assumes "tag = [] \<or> tag = str ''json''"
    and "\<not> prefix FENCE (trim payload)" and "\<not> suffix FENCE (trim payload)"
  shows "extractJson_v2 (fenced tag payload) = extractJson_v2 payload"
proof (cases "payload = []")
  case True
  then have "trim payload = []" by (simp add: trim_def ltrim_def rtrim_def)
  with True show ?thesis
    by (simp add: extractJson_v2_def fenced_not_empty cleaned_v2_fenced [OF assms(1)]
        nothing_in_empty)
next
  case False
  then show ?thesis
    by (simp add: extractJson_v2_def fenced_not_empty cleaned_v2_fenced [OF assms(1)]
        cleaned_v2_bare [OF assms(2,3)])
qed

lemma find_sub_fence_tail:
  "find_sub FENCE (x # xs) = None \<Longrightarrow> find_sub FENCE xs = None"
  by (simp split: if_splits)

lemma find_sub_fence_dropWhile:
  "find_sub FENCE s = None \<Longrightarrow> find_sub FENCE (dropWhile f s) = None"
proof (induction s)
  case Nil
  then show ?case by simp
next
  case (Cons x xs)
  from Cons.prems have "find_sub FENCE xs = None" by (rule find_sub_fence_tail)
  with Cons show ?case by simp
qed

lemma find_sub_fence_prefix:
  "find_sub FENCE (xs @ ys) = None \<Longrightarrow> find_sub FENCE xs = None"
proof (induction xs)
  case Nil
  then show ?case by simp
next
  case (Cons x xs)
  from Cons.prems have n: "\<not> prefix FENCE (x # xs @ ys)" and t: "find_sub FENCE (xs @ ys) = None"
    by (simp_all split: if_splits)
  have "\<not> prefix FENCE (x # xs)"
  proof
    assume "prefix FENCE (x # xs)"
    then have "prefix FENCE ((x # xs) @ ys)" by (rule prefix_prefix)
    with n show False by simp
  qed
  with Cons.IH [OF t] show ?case by simp
qed

lemma rtrim_is_prefix: "\<exists>ys. s = rtrim s @ ys"
proof -
  have "rev s = takeWhile isWs (rev s) @ dropWhile isWs (rev s)" by simp
  then have "rev (rev s) = rev (takeWhile isWs (rev s) @ dropWhile isWs (rev s))" by simp
  then have "s = rtrim s @ rev (takeWhile isWs (rev s))"
    by (simp only: rev_rev_ident rev_append rtrim_def)
  then show ?thesis ..
qed

lemma find_sub_fence_trim:
  assumes "find_sub FENCE s = None"
  shows "find_sub FENCE (trim s) = None"
proof -
  from assms have l: "find_sub FENCE (ltrim s) = None"
    unfolding ltrim_def by (rule find_sub_fence_dropWhile)
  obtain ys where "ltrim s = rtrim (ltrim s) @ ys" using rtrim_is_prefix by blast
  with l have "find_sub FENCE (rtrim (ltrim s) @ ys) = None" by simp
  then show ?thesis unfolding trim_def by (rule find_sub_fence_prefix)
qed

lemma find_sub_closing_fence:
  "find_sub FENCE q = None \<Longrightarrow> find_sub FENCE (q @ 10 # FENCE) = Some (length q + 1)"
proof (induction q)
  case Nil
  then show ?case by simp
next
  case (Cons x q)
  from Cons.prems have n: "\<not> prefix FENCE (x # q)" and t: "find_sub FENCE q = None"
    by (simp_all split: if_splits)
  have "\<not> prefix FENCE (x # q @ 10 # FENCE)"
  proof (cases q)
    case Nil
    then show ?thesis by simp
  next
    case (Cons y q')
    show ?thesis
    proof (cases q')
      case Nil
      with Cons show ?thesis by simp
    next
      case (Cons z q'')
      with \<open>q = y # q'\<close> n show ?thesis by simp
    qed
  qed
  with Cons.IH [OF t] show ?case by simp
qed

lemma ltrim_payload_newline:
  "ltrim (payload @ [10]) = (if \<forall>c\<in>set payload. isWs c then [] else ltrim payload @ [10])"
  by (simp add: ltrim_def dropWhile_append)

lemma codeBlockMatch_fenced:
  assumes "tag = [] \<or> tag = str ''json''" and "find_sub FENCE payload = None"
  shows "codeBlockMatch (fenced tag payload) = Some (trim payload)"
proof -
  let ?r = "payload @ [10] @ FENCE"
  let ?q = "ltrim (payload @ [10])"
  have f: "find_sub FENCE (fenced tag payload) = Some 0" by (simp add: fenced_def)
  have d: "drop (0 + 3) (fenced tag payload) = tag @ 10 # ?r" by (simp add: fenced_def)
  have w: "dropWhile isWs (10 # ?r) = ?q @ FENCE"
    using ltrim_after_tag [of payload] by (simp add: ltrim_def)
  have j: "find_sub FENCE (?q @ FENCE) = Some (length ?q)"
  proof (cases "\<forall>c\<in>set payload. isWs c")
    case True
    then show ?thesis by (simp add: ltrim_payload_newline)
  next
    case False
    from assms(2) have "find_sub FENCE (ltrim payload) = None"
      unfolding ltrim_def by (rule find_sub_fence_dropWhile)
    from find_sub_closing_fence [OF this] False show ?thesis
      by (simp add: ltrim_payload_newline)
  qed
  have "codeBlockMatch (fenced tag payload) = Some (rtrim (take (length ?q) (?q @ FENCE)))"
    unfolding codeBlockMatch_def f option.case Let_def d after_fence_tag(2) [OF assms(1)] w j
    by simp
  then show ?thesis by (simp add: rtrim_ltrim_newline)
qed

lemma strip_json_word_fenced: "strip_json_word (fenced tag payload) = fenced tag payload"
  by (simp add: strip_json_word_def json_tag_ci_def fenced_def split: list.splits)

lemma cleanedText_v1_fenced:
  assumes "tag = [] \<or> tag = str ''json''" and "find_sub FENCE payload = None"
  shows "cleanedText_v1 (fenced tag payload)
    = (if trim payload \<noteq> [] then trim payload else fenced tag payload)"
  by (simp add: cleanedText_v1_def trim_fenced codeBlockMatch_fenced [OF assms]
      trim_idem strip_json_word_fenced)

lemma cleanedText_v1_bare:
  assumes "find_sub FENCE payload = None" and "\<not> json_tag_ci (trim payload)"
  shows "cleanedText_v1 payload = trim payload"
  using assms
  by (simp add: cleanedText_v1_def codeBlockMatch_def find_sub_fence_trim strip_json_word_def)

lemma indexOf_None: "c \<notin> set s \<Longrightarrow> indexOf s c = None"
  by (induction s) auto

lemma nothing_in_blank_fence:
  assumes "tag = [] \<or> tag = str ''json''" and "\<forall>c\<in>set payload. isWs c"
  shows "JSON_parse (fenced tag payload) = None"
    and "parse_between LBRACKET RBRACKET (fenced tag payload) = None"
    and "sequential_objects (fenced tag payload) = []"
proof -
  show "JSON_parse (fenced tag payload) = None"
    by (simp add: JSON_parse_def fenced_def json_ws_def is_digit_def)
  have "LBRACKET \<notin> set payload" "LBRACE \<notin> set payload"
    using assms(2) by (auto simp: isWs_def)
  then have "LBRACKET \<notin> set (fenced tag payload)" "LBRACE \<notin> set (fenced tag payload)"
    using assms(1) by (auto simp: fenced_def)
  then have i: "indexOf (fenced tag payload) LBRACKET = None"
    "indexOf (fenced tag payload) LBRACE = None"
    by (simp_all add: indexOf_None)
  show "parse_between LBRACKET RBRACKET (fenced tag payload) = None"
    by (simp add: parse_between_def i)
  show "sequential_objects (fenced tag payload) = []"
    by (simp add: sequential_objects_def i sequential_loop.simps)
qed

lemma extractJson_v1_fenced:
  assumes "tag = [] \<or> tag = str ''json''"
    and "find_sub FENCE payload = None" and "\<not> json_tag_ci (trim payload)"
  shows "extractJson_v1 (fenced tag payload) = extractJson_v1 payload"
proof (cases "trim payload = []")
  case True
  then have b: "\<forall>c\<in>set payload. isWs c" by (simp add: trim_eq_Nil)
  have "extractJson_v1 (fenced tag payload) = JNull"
    by (simp add: extractJson_v1_def cleanedText_v1_fenced [OF assms(1,2)] True
        nothing_in_blank_fence [OF assms(1) b])
  moreover have "extractJson_v1 payload = JNull"
    by (simp add: extractJson_v1_def cleanedText_v1_bare [OF assms(2,3)] True nothing_in_empty)
  ultimately show ?thesis by simp
next
  case False
  then have "payload \<noteq> []" by (auto simp: trim_def ltrim_def rtrim_def)
  with False show ?thesis
    by (simp add: extractJson_v1_def fenced_not_empty cleanedText_v1_fenced [OF assms(1,2)]
        cleanedText_v1_bare [OF assms(2,3)])
qed

text \<open>
  Claim C7, as the code has it. With the delimiters on lines of their own and the tag
  \<^verbatim>\<open>json\<close> or none, the fenced payload gives what the bare payload gives: in the
  revision with object extraction when the trimmed payload neither starts nor ends
  with a fence of its own, in the revision with sequential extraction when the
  payload holds no fence and its trimmed form does not start with the word
  \<^verbatim>\<open>json\<close>.
\<close>

theorem fenced_payload:
  assumes "tag = [] \<or> tag = str ''json''"
  shows "(\<not> prefix FENCE (trim payload) \<and> \<not> suffix FENCE (trim payload) \<longrightarrow>
            extractJson_v2 (fenced tag payload) = extractJson_v2 payload)
    \<and> (find_sub FENCE payload = None \<and> \<not> json_tag_ci (trim payload) \<longrightarrow>
            extractJson_v1 (fenced tag payload) = extractJson_v1 payload)"
  using extractJson_v2_fenced [OF assms] extractJson_v1_fenced [OF assms] by blast

theorem fenced_payload_witness:
  "extractJson_v2 (fenced (str ''json'') (str '' [{\"title\":\"A\"}] ''))
     = JArr [JObj [(str ''title'', JStr (str ''A''))]]
   \<and> extractJson_v2 (fenced [] (str '' [{\"title\":\"A\"}] ''))
     = JArr [JObj [(str ''title'', JStr (str ''A''))]]
   \<and> extractJson_v1 (fenced (str ''json'') (str '' [{\"title\":\"A\"}] ''))
     = JArr [JObj [(str ''title'', JStr (str ''A''))]]
   \<and> extractJson_v1 (fenced [] (str '' [{\"title\":\"A\"}] ''))
     = JArr [JObj [(str ''title'', JStr (str ''A''))]]"
proof -
  let ?p = "str '' [{\"title\":\"A\"}] ''"
  have h: "\<not> prefix FENCE (trim ?p)" "\<not> suffix FENCE (trim ?p)" "find_sub FENCE ?p = None"
    "\<not> json_tag_ci (trim ?p)"
    by (simp_all add: eval_defs)
  have b: "extractJson_v2 ?p = JArr [JObj [(str ''title'', JStr (str ''A''))]]"
    "extractJson_v1 ?p = JArr [JObj [(str ''title'', JStr (str ''A''))]]"
    by (simp_all add: eval_defs)
  from fenced_payload [of "str ''json''" ?p] fenced_payload [of "[]" ?p] h b
  show ?thesis by simp
qed

text \<open>
  Against claim C7 as stated: a payload that is itself a fenced block, and for the
  revision with sequential extraction a payload that starts with the word \<^verbatim>\<open>json\<close>.
\<close>

theorem fenced_payload_counterexample:
  "extractJson_v2 (str ''```5```'') = JNum (str ''5'')
   \<and> extractJson_v2 (fenced (str ''json'') (str ''```5```'')) = JNull
   \<and> extractJson_v1 (str ''```5```'') = JNum (str ''5'')
   \<and> extractJson_v1 (fenced (str ''json'') (str ''```5```'')) = JNull
   \<and> extractJson_v1 (str ''json 5'') = JNum (str ''5'')
   \<and> extractJson_v1 (fenced [] (str ''json 5'')) = JNull"
  by (simp add: fenced_def eval_defs)

subsection \<open>Sequential extraction\<close>






subsection \<open>A text that starts with a brace parses to an object\<close>

lemma object_at_bottom_simps [simp]:
  "object_at_bottom [InObj ms k]"
  "\<not> object_at_bottom []"
  "object_at_bottom (f # g # stk) = object_at_bottom (g # stk)"
  "stk \<noteq> [] \<Longrightarrow> object_at_bottom (f # stk) = object_at_bottom stk"
  by (simp_all add: object_at_bottom_def)








subsection \<open>The outer loop\<close>







lemma kept_objects_Nil [simp]: "kept_objects [] = []"
  by (simp add: kept_objects_def List.map_filter_def)














lemma escape_char_Some: "escape_char e = Some x \<Longrightarrow> e \<noteq> 117"
  by (auto simp: escape_char_def split: if_splits)





end
